theory Spec2Isabelle
  imports Complex_Main "HOL-Library.Word"
begin

section \<open>The reservation table of the block download scheduler\<close>

text \<open>
  A shallow embedding of \<^verbatim>\<open>src/reservations.cpp\<close> (class \<^verbatim>\<open>reservations\<close>) and of
  \<^verbatim>\<open>src/protocols/protocol_block_in.cpp\<close> (class \<^verbatim>\<open>protocol_block_in\<close>).
  Sizes and counters (\<^verbatim>\<open>size_t\<close>) are natural numbers; the one subtraction of the
  source that can wrap is written out. The mutexes are not modelled: every member
  function is one atomic step on the state.
\<close>

subsection \<open>Constants and the hash queue\<close>

text \<open>Modelled from the spec: \<^verbatim>\<open>max_size_t\<close> is \<^verbatim>\<open>SIZE_MAX\<close>, the largest \<^verbatim>\<open>size_t\<close>, of 64 bits.\<close>

definition max_size_t :: nat where
  "max_size_t = 2 ^ 64 - 1"

text \<open>The protocol maximum size of get data block requests.\<close>

definition max_block_request :: nat where
  "max_block_request = 50000"

type_synonym hash_digest = "256 word"

type_synonym hash_entry = "hash_digest \<times> nat"

type_synonym hash_queue = "hash_entry list"

text \<open>
  Modelled from the spec: the class \<^verbatim>\<open>hash_queue\<close>, a first-in first-out sequence of
  pairs of a block hash and a height. \<^verbatim>\<open>size\<close> is the number of queued entries;
  \<^verbatim>\<open>dequeue\<close> pops the front entry, or reports that the queue is empty.
\<close>

definition hash_queue_size :: "hash_queue \<Rightarrow> nat" where
  "hash_queue_size q = length q"

fun hash_queue_dequeue :: "hash_queue \<Rightarrow> (hash_entry \<times> hash_queue) option" where
  "hash_queue_dequeue [] = None"
| "hash_queue_dequeue (e # q) = Some (e, q)"

subsection \<open>A reservation (slot)\<close>

text \<open>
  Modelled from the spec: the class \<^verbatim>\<open>reservation\<close>, of which the table code uses the
  constructor, \<^verbatim>\<open>insert\<close>, \<^verbatim>\<open>size\<close>, \<^verbatim>\<open>empty\<close>, \<^verbatim>\<open>idle\<close>, \<^verbatim>\<open>rate\<close> and \<^verbatim>\<open>partition\<close>.
  A slot has an id, its pending hashes in insertion order, a rate sample, a stopped flag
  and a timeout.
\<close>

record performance =
  events :: nat
  database :: nat
  window :: nat

record reservation =
  slot :: nat
  heights :: "hash_entry list"
  rate :: performance
  stopped :: bool
  timeout :: nat

text \<open>
  Modelled from the spec: the constructor \<^verbatim>\<open>reservation(reservations, slot, timeout)\<close>
  gives an empty, idle, running slot.
\<close>

definition reservation_new :: "nat \<Rightarrow> nat \<Rightarrow> reservation" where
  "reservation_new row secs =
     \<lparr>slot = row, heights = [], rate = \<lparr>events = 0, database = 0, window = 0\<rparr>,
      stopped = False, timeout = secs\<rparr>"

text \<open>
  Modelled from the spec: \<^verbatim>\<open>reservation::insert(hash, height)\<close> adds the entry to the
  pending hashes, which keep their insertion order. The spec keeps every hash in at most
  one place, queue or slot, and does not say what inserting a pending hash again does;
  here the entry is added like any other.
\<close>

definition reservation_insert :: "hash_entry \<Rightarrow> reservation \<Rightarrow> reservation" where
  "reservation_insert e r = r\<lparr>heights := heights r @ [e]\<rparr>"

text \<open>
  Modelled from the spec: \<^verbatim>\<open>reservation::size\<close> is the number of pending hashes,
  \<^verbatim>\<open>reservation::empty\<close> holds when there is none, and \<^verbatim>\<open>reservation::idle\<close> holds when
  the rate has no events.
\<close>

definition reservation_size :: "reservation \<Rightarrow> nat" where
  "reservation_size r = length (heights r)"

definition reservation_empty :: "reservation \<Rightarrow> bool" where
  "reservation_empty r = (heights r = [])"

definition reservation_idle :: "reservation \<Rightarrow> bool" where
  "reservation_idle r = (events (rate r) = 0)"

subsection \<open>The table\<close>

text \<open>
  The table holds shared pointers. A pointer is an address, the objects live in a store,
  and \<^verbatim>\<open>std::make_shared\<close> takes the next unused address. Pointer comparison
  (\<^verbatim>\<open>maximal != minimal\<close>, \<^verbatim>\<open>std::find\<close>) is comparison of addresses.
\<close>

type_synonym ptr = nat

record settings =
  download_connections :: nat
  block_timeout_seconds :: nat

record reservations =
  hashes :: hash_queue
  table :: "ptr list"
  store :: "ptr \<Rightarrow> reservation"
  next_ptr :: ptr
  max_request :: nat
  timeout_seconds :: nat

definition make_shared :: "reservation \<Rightarrow> reservations \<Rightarrow> ptr \<times> reservations" where
  "make_shared r st =
     (next_ptr st, st\<lparr>store := (store st)(next_ptr st := r), next_ptr := Suc (next_ptr st)\<rparr>)"

definition insert_at :: "ptr \<Rightarrow> hash_entry \<Rightarrow> reservations \<Rightarrow> reservations" where
  \<comment> \<open>\<^verbatim>\<open>p->insert(hash, height)\<close>\<close>
  "insert_at p e st = st\<lparr>store := (store st)(p := reservation_insert e (store st p))\<rparr>"

definition size_at :: "reservations \<Rightarrow> ptr \<Rightarrow> nat" where
  \<comment> \<open>\<^verbatim>\<open>p->size()\<close>\<close>
  "size_at st p = reservation_size (store st p)"

subsection \<open>initialize\<close>

text \<open>
  The two locals \<^verbatim>\<open>hash\<close> and \<^verbatim>\<open>height\<close> are written by \<^verbatim>\<open>dequeue\<close> and read by
  \<^verbatim>\<open>insert\<close>. When the queue is empty \<^verbatim>\<open>dequeue\<close> leaves them as they were, so they are
  threaded through the loops. They are declared without a value; \<open>unset\<close> stands for it.
  It is never inserted: both loops dequeue no more entries than the queue holds
  (\<open>reserve_loop_snd\<close>, \<open>base_loop_snd\<close>).
\<close>

definition unset :: hash_entry where
  "unset = (0, 0)"

definition dequeue_insert :: "ptr \<Rightarrow> hash_entry \<times> reservations \<Rightarrow> hash_entry \<times> reservations" where
  \<comment> \<open>\<^verbatim>\<open>hashes_.dequeue(hash, height); p->insert(hash, height);\<close>\<close>
  "dequeue_insert p ls =
     (case ls of (local, st) \<Rightarrow>
        (case hash_queue_dequeue (hashes st) of
           None \<Rightarrow> (local, insert_at p local st)
         | Some (e, q) \<Rightarrow> (e, insert_at p e (st\<lparr>hashes := q\<rparr>))))"

text \<open>
  The counter of the first loop is an \<^verbatim>\<open>int\<close> (\<^verbatim>\<open>auto row = 0\<close>), compared with the
  \<^verbatim>\<open>size_t\<close> bound; it is a natural number here, as are the \<^verbatim>\<open>size_t\<close> counters. In
  \<^verbatim>\<open>table_[row]\<close> the index is below the size of the table, which the first loop has made
  \<^verbatim>\<open>rows\<close> long.
\<close>

function create_rows :: "nat \<Rightarrow> nat \<Rightarrow> reservations \<Rightarrow> reservations" where
  \<comment> \<open>\<^verbatim>\<open>for (auto row = 0; row < rows; ++row) table_.push_back(make_shared(...))\<close>\<close>
  "create_rows row rows st =
     (if row < rows
      then (case make_shared (reservation_new row (timeout_seconds st)) st of
              (p, st') \<Rightarrow> create_rows (Suc row) rows (st'\<lparr>table := table st' @ [p]\<rparr>))
      else st)"
  by pat_completeness auto
termination
  by (relation "measure (\<lambda>(row, rows, st). rows - row)") auto

function row_loop :: "nat \<Rightarrow> nat \<Rightarrow> hash_entry \<times> reservations \<Rightarrow> hash_entry \<times> reservations" where
  \<comment> \<open>\<^verbatim>\<open>for (size_t row = 0; row < rows; ++row) { dequeue; table_[row]->insert }\<close>\<close>
  "row_loop row rows ls =
     (if row < rows
      then row_loop (Suc row) rows (dequeue_insert (table (snd ls) ! row) ls)
      else ls)"
  by pat_completeness auto
termination
  by (relation "measure (\<lambda>(row, rows, ls). rows - row)") auto

function base_loop :: "nat \<Rightarrow> nat \<Rightarrow> nat \<Rightarrow> hash_entry \<times> reservations \<Rightarrow> hash_entry \<times> reservations" where
  \<comment> \<open>\<^verbatim>\<open>for (size_t base = 0; base < (allocation / rows); ++base)\<close>\<close>
  "base_loop base bound rows ls =
     (if base < bound
      then base_loop (Suc base) bound rows (row_loop 0 rows ls)
      else ls)"
  by pat_completeness auto
termination
  by (relation "measure (\<lambda>(base, bound, rows, ls). bound - base)") auto

declare create_rows.simps [simp del] row_loop.simps [simp del] base_loop.simps [simp del]

definition reservations_initialize :: "nat \<Rightarrow> reservations \<Rightarrow> reservations" where
  "reservations_initialize size0 st =
     (let max_rows = max_size_t div max_request st;
          rows0 = min max_rows size0;
          blocks = hash_queue_size (hashes st);
          rows = min rows0 blocks
      in if rows = 0 then st
         else
           let max_allocation = rows * max_request st;
               allocation = min blocks max_allocation;
               st1 = create_rows 0 rows st
           in snd (base_loop 0 (allocation div rows) rows (unset, st1)))"

definition reservations_new :: "hash_queue \<Rightarrow> settings \<Rightarrow> reservations" where
  \<comment> \<open>The constructor. No object exists yet: what the store holds is never read.\<close>
  "reservations_new hs cfg =
     reservations_initialize (download_connections cfg)
       \<lparr>hashes = hs, table = [], store = (\<lambda>_. reservation_new 0 0), next_ptr = 0,
        max_request = max_block_request, timeout_seconds = block_timeout_seconds cfg\<rparr>"

subsection \<open>reserve, partition, populate\<close>

definition size_t_minus :: "nat \<Rightarrow> nat \<Rightarrow> nat" where
  \<comment> \<open>Subtraction of \<^verbatim>\<open>size_t\<close> values: it wraps below zero.\<close>
  "size_t_minus a b = (if b \<le> a then a - b else max_size_t + 1 - (b - a))"

function reserve_loop :: "nat \<Rightarrow> nat \<Rightarrow> ptr \<Rightarrow> hash_entry \<times> reservations \<Rightarrow> hash_entry \<times> reservations" where
  \<comment> \<open>\<^verbatim>\<open>for (size_t block = 0; block < allocation; ++block) { dequeue; minimal->insert }\<close>\<close>
  "reserve_loop block allocation minimal ls =
     (if block < allocation
      then reserve_loop (Suc block) allocation minimal (dequeue_insert minimal ls)
      else ls)"
  by pat_completeness auto
termination
  by (relation "measure (\<lambda>(block, allocation, minimal, ls). allocation - block)") auto

declare reserve_loop.simps [simp del]

definition reservations_reserve :: "ptr \<Rightarrow> reservations \<Rightarrow> bool \<times> reservations" where
  "reservations_reserve minimal st =
     (let size0 = hash_queue_size (hashes st);
          existing = size_at st minimal;
          allocation = min size0 (size_t_minus (max_request st) existing);
          st' = snd (reserve_loop 0 allocation minimal (unset, st))
      in (\<not> reservation_empty (store st' minimal), st'))"

text \<open>
  Modelled from the spec: \<^verbatim>\<open>reservation::partition\<close>, called as
  \<^verbatim>\<open>maximal->partition(minimal)\<close>, moves half (rounded up) of the pending hashes of
  \<^verbatim>\<open>maximal\<close> to \<^verbatim>\<open>minimal\<close>, sets \<^verbatim>\<open>maximal\<close> stopped and returns whether at least one
  hash moved. The half that moves is the front of the pending order.
\<close>

definition reservation_partition :: "ptr \<Rightarrow> ptr \<Rightarrow> reservations \<Rightarrow> bool \<times> reservations" where
  "reservation_partition maximal minimal st =
     (let donor = store st maximal;
          offset = (reservation_size donor + 1) div 2;
          moved = take offset (heights donor);
          st1 = st\<lparr>store := (store st)
                  (maximal := donor\<lparr>heights := drop offset (heights donor), stopped := True\<rparr>)\<rparr>;
          other = store st1 minimal;
          st2 = st1\<lparr>store := (store st1)(minimal := other\<lparr>heights := heights other @ moved\<rparr>)\<rparr>
      in (moved \<noteq> [], st2))"

fun max_element :: "('a \<Rightarrow> 'a \<Rightarrow> bool) \<Rightarrow> 'a \<Rightarrow> 'a list \<Rightarrow> 'a" where
  \<comment> \<open>\<^verbatim>\<open>std::max_element\<close> on a non-empty range: the running largest element is replaced
      only by one that compares greater.\<close>
  "max_element comparer largest [] = largest"
| "max_element comparer largest (x # xs) =
     max_element comparer (if comparer largest x then x else largest) xs"

definition find_maximal :: "reservations \<Rightarrow> ptr option" where
  \<comment> \<open>\<open>None\<close> is the null pointer.\<close>
  "find_maximal st =
     (case table st of
        [] \<Rightarrow> None
      | p # ps \<Rightarrow> Some (max_element (\<lambda>left right. size_at st left < size_at st right) p ps))"

definition reservations_partition :: "ptr \<Rightarrow> reservations \<Rightarrow> bool \<times> reservations" where
  \<comment> \<open>\<^verbatim>\<open>return maximal && maximal != minimal && maximal->partition(minimal);\<close>\<close>
  "reservations_partition minimal st =
     (case find_maximal st of
        None \<Rightarrow> (False, st)
      | Some maximal \<Rightarrow>
          if maximal \<noteq> minimal then reservation_partition maximal minimal st else (False, st))"

definition reservations_populate :: "ptr \<Rightarrow> reservations \<Rightarrow> bool \<times> reservations" where
  \<comment> \<open>\<^verbatim>\<open>populated = reserve(minimal) || partition(minimal);\<close>\<close>
  "reservations_populate minimal st =
     (case reservations_reserve minimal st of
        (reserved, st1) \<Rightarrow> if reserved then (True, st1) else reservations_partition minimal st1)"

subsection \<open>remove\<close>

fun std_find :: "'a list \<Rightarrow> 'a \<Rightarrow> nat" where
  \<comment> \<open>\<^verbatim>\<open>std::find\<close>: the position of the first equal element, the length when there is none.\<close>
  "std_find [] v = 0"
| "std_find (x # xs) v = (if x = v then 0 else Suc (std_find xs v))"

fun erase :: "'a list \<Rightarrow> nat \<Rightarrow> 'a list" where
  \<comment> \<open>\<^verbatim>\<open>vector::erase\<close> of the element at a position.\<close>
  "erase [] it = []"
| "erase (x # xs) 0 = xs"
| "erase (x # xs) (Suc it) = x # erase xs it"

definition reservations_remove :: "ptr \<Rightarrow> reservations \<Rightarrow> reservations" where
  "reservations_remove row st =
     (let it = std_find (table st) row
      in if it = length (table st) then st
         else st\<lparr>table := erase (table st) it\<rparr>)"

subsection \<open>rates\<close>

text \<open>
  The arithmetic of \<^verbatim>\<open>double\<close> is a parameter: its operations, the conversion from
  \<^verbatim>\<open>size_t\<close> and \<^verbatim>\<open>performance::normal\<close>, none of which this repository's sources define.
\<close>

record 'd floating =
  fzero :: 'd
  fadd :: "'d \<Rightarrow> 'd \<Rightarrow> 'd"
  fsub :: "'d \<Rightarrow> 'd \<Rightarrow> 'd"
  fmul :: "'d \<Rightarrow> 'd \<Rightarrow> 'd"
  fdiv :: "'d \<Rightarrow> 'd \<Rightarrow> 'd"
  fsqrt :: "'d \<Rightarrow> 'd"
  of_size :: "nat \<Rightarrow> 'd"
  normal :: "performance \<Rightarrow> 'd"

record 'd rate_statistics =
  active_count :: nat
  arithmetic_mean :: 'd
  standard_deviation :: 'd

text \<open>
  Modelled from the spec: \<^verbatim>\<open>reservation::divide\<close> returns 0 when the denominator is 0,
  the quotient otherwise.
\<close>

definition reservation_divide :: "'d floating \<Rightarrow> 'd \<Rightarrow> nat \<Rightarrow> 'd" where
  "reservation_divide fl dividend divisor =
     (if divisor = 0 then fzero fl else fdiv fl dividend (of_size fl divisor))"

fun remove_if :: "('a \<Rightarrow> bool) \<Rightarrow> 'a list \<Rightarrow> 'a list" where
  \<comment> \<open>\<^verbatim>\<open>rows.erase(std::remove_if(rows.begin(), rows.end(), pred), rows.end())\<close>\<close>
  "remove_if pred [] = []"
| "remove_if pred (x # xs) = (if pred x then remove_if pred xs else x # remove_if pred xs)"

fun accumulate :: "'a list \<Rightarrow> 'b \<Rightarrow> ('b \<Rightarrow> 'a \<Rightarrow> 'b) \<Rightarrow> 'b" where
  \<comment> \<open>\<^verbatim>\<open>std::accumulate\<close>\<close>
  "accumulate [] init f = init"
| "accumulate (x # xs) init f = accumulate xs (f init x) f"

definition reservations_rates :: "'d floating \<Rightarrow> reservations \<Rightarrow> 'd rate_statistics" where
  "reservations_rates fl st =
     (let rows = remove_if (\<lambda>row. reservation_idle (store st row)) (table st);
          active_rows = length rows;
          rates = map (\<lambda>row. normal fl (rate (store st row))) rows;
          total = accumulate rates (fzero fl) (fadd fl);
          mean = reservation_divide fl total active_rows;
          summary = (\<lambda>initial rate0.
             let difference = fsub fl mean rate0
             in fadd fl initial (fmul fl difference difference));
          squares = accumulate rates (fzero fl) summary;
          quotient = reservation_divide fl squares active_rows
      in \<lparr>active_count = active_rows, arithmetic_mean = mean,
          standard_deviation = fsqrt fl quotient\<rparr>)"

section \<open>The block download protocol of one channel\<close>

text \<open>
  The chain, the reservation of the channel, the block and the request message are the
  protocol's collaborators. Their classes are not part of these sources, so their states
  are type parameters (\<open>'c\<close> the chain, \<open>'r\<close> the reservation, \<open>'b\<close> a block, \<open>'m\<close> a
  \<^verbatim>\<open>get_data\<close> message, \<open>'i\<close> an inventory of it) and their member functions are the
  fields of \<open>collaborators\<close>.
  Every call that acts on a collaborator or on the channel is appended to a trace.
\<close>

datatype code =
  success
  | service_stopped
  | channel_timeout
  | channel_stopped
  | other_error nat

datatype ('b, 'm) event =
  Start_timer
  | Subscribe_headers
  | Subscribe_block
  | Request
  | Send 'm
  | Find_height_and_erase hash_digest
  | Organize 'b nat
  | Update_history 'b
  | Report 'b nat
  | Stop code
  | Reservation_stop
  | Unsubscribe

record ('c, 'r, 'b, 'm, 'i) collaborators =
  is_candidates_stale :: "'c \<Rightarrow> bool"
  is_blocks_stale :: "'c \<Rightarrow> bool"
  organize :: "'b \<Rightarrow> nat \<Rightarrow> 'c \<Rightarrow> code \<times> 'c"
  unsubscribe :: "'c \<Rightarrow> 'c"
  request :: "'r \<Rightarrow> 'm \<times> 'r"
  reservation_stopped :: "'r \<Rightarrow> bool"
  find_height_and_erase :: "hash_digest \<Rightarrow> 'r \<Rightarrow> nat option \<times> 'r"
  update_history :: "'b \<Rightarrow> 'r \<Rightarrow> 'r"
  expired :: "'r \<Rightarrow> bool"
  reservation_stop :: "'r \<Rightarrow> 'r"
  block_hash :: "'b \<Rightarrow> hash_digest"
  inventories :: "'m \<Rightarrow> 'i list"
  to_witness :: "'m \<Rightarrow> 'm"
  stopped_code :: "bool \<Rightarrow> code \<Rightarrow> bool"

record ('c, 'r, 'b, 'm) protocol_block_in =
  chain :: 'c
  reservation :: 'r
  require_witness :: bool
  peer_witness :: bool
  halted :: bool
  trace :: "('b, 'm) event list"

definition emit :: "('b, 'm) event \<Rightarrow> ('c, 'r, 'b, 'm) protocol_block_in \<Rightarrow> ('c, 'r, 'b, 'm) protocol_block_in" where
  "emit e st = st\<lparr>trace := trace st @ [e]\<rparr>"

definition stop :: "code \<Rightarrow> ('c, 'r, 'b, 'm) protocol_block_in \<Rightarrow> ('c, 'r, 'b, 'm) protocol_block_in" where
  \<comment> \<open>\<^verbatim>\<open>stop(ec)\<close> of the protocol base class stops the channel with the code.\<close>
  "stop ec st = emit (Stop ec) (st\<lparr>halted := True\<rparr>)"

definition stopped_with :: "('c, 'r, 'b, 'm, 'i) collaborators \<Rightarrow> code \<Rightarrow> ('c, 'r, 'b, 'm) protocol_block_in \<Rightarrow> bool" where
  \<comment> \<open>\<^verbatim>\<open>stopped(ec)\<close> of the protocol base class: a function of the stopped state of the
      channel and of the code.\<close>
  "stopped_with ops ec st = stopped_code ops (halted st) ec"

definition send_get_blocks :: "('c, 'r, 'b, 'm, 'i) collaborators \<Rightarrow> ('c, 'r, 'b, 'm) protocol_block_in \<Rightarrow> ('c, 'r, 'b, 'm) protocol_block_in" where
  "send_get_blocks ops st =
     (if halted st then st
      else if is_candidates_stale ops (chain st) then st
      else
        (case request ops (reservation st) of
           (req, r) \<Rightarrow>
             let st1 = emit Request (st\<lparr>reservation := r\<rparr>)
             in if inventories ops req = [] then st1
                else emit (Send (if require_witness st then to_witness ops req else req)) st1))"

definition report :: "'b \<Rightarrow> nat \<Rightarrow> ('c, 'r, 'b, 'm) protocol_block_in \<Rightarrow> ('c, 'r, 'b, 'm) protocol_block_in" where
  \<comment> \<open>The progress line of \<^verbatim>\<open>LOG_INFO\<close>.\<close>
  "report block height st = emit (Report block height) st"

definition handle_receive_block :: "('c, 'r, 'b, 'm, 'i) collaborators \<Rightarrow> code \<Rightarrow> 'b \<Rightarrow> ('c, 'r, 'b, 'm) protocol_block_in \<Rightarrow> bool \<times> ('c, 'r, 'b, 'm) protocol_block_in" where
  "handle_receive_block ops ec message st =
     (if stopped_with ops ec st then (False, st)
      else if ec \<noteq> success then (False, stop ec st)
      else if require_witness st \<and> \<not> peer_witness st then (False, stop channel_stopped st)
      else if reservation_stopped ops (reservation st) then (False, stop channel_stopped st)
      else
        (case find_height_and_erase ops (block_hash ops message) (reservation st) of
           (found, r) \<Rightarrow>
             let st1 = emit (Find_height_and_erase (block_hash ops message)) (st\<lparr>reservation := r\<rparr>)
             in (case found of
                   None \<Rightarrow> (False, stop channel_stopped st1)
                 | Some height \<Rightarrow>
                     (case organize ops message height (chain st1) of
                        (error_code, c) \<Rightarrow>
                          let st2 = emit (Organize message height) (st1\<lparr>chain := c\<rparr>)
                          in if error_code \<noteq> success then (False, stop error_code st2)
                             else
                               let st3 = emit (Update_history message)
                                     (st2\<lparr>reservation := update_history ops message (reservation st2)\<rparr>);
                                   period = (if is_blocks_stale ops (chain st3) then 100 else 1 :: nat);
                                   st4 = (if height mod period = 0 then report message height st3 else st3)
                               in (True, send_get_blocks ops st4)))))"

definition handle_reindexed :: "('c, 'r, 'b, 'm, 'i) collaborators \<Rightarrow> code \<Rightarrow> ('c, 'r, 'b, 'm) protocol_block_in \<Rightarrow> bool \<times> ('c, 'r, 'b, 'm) protocol_block_in" where
  "handle_reindexed ops ec st =
     (if stopped_with ops ec st then (False, st)
      else if ec \<noteq> success then (False, stop ec st)
      else (True, send_get_blocks ops st))"

definition handle_event :: "('c, 'r, 'b, 'm, 'i) collaborators \<Rightarrow> code \<Rightarrow> ('c, 'r, 'b, 'm) protocol_block_in \<Rightarrow> ('c, 'r, 'b, 'm) protocol_block_in" where
  "handle_event ops ec st =
     (if stopped_with ops ec st
      then emit Unsubscribe
             (emit Reservation_stop (st\<lparr>reservation := reservation_stop ops (reservation st)\<rparr>)
                \<lparr>chain := unsubscribe ops (chain st)\<rparr>)
      else if ec \<noteq> success \<and> ec \<noteq> channel_timeout then stop ec st
      else if expired ops (reservation st) then stop ec st
      else st)"

definition start :: "('c, 'r, 'b, 'm, 'i) collaborators \<Rightarrow> ('c, 'r, 'b, 'm) protocol_block_in \<Rightarrow> ('c, 'r, 'b, 'm) protocol_block_in" where
  "start ops st =
     send_get_blocks ops (emit Subscribe_block (emit Subscribe_headers (emit Start_timer st)))"

section \<open>Test fixtures\<close>

text \<open>Concrete tables, queues and collaborators, on which the theorems below are instantiated.\<close>

definition fixture_queue :: "nat \<Rightarrow> hash_queue" where
  \<comment> \<open>Heights \<open>0\<close> to \<open>n - 1\<close>, each with a synthetic hash.\<close>
  "fixture_queue n = map (\<lambda>h. (word_of_nat h, h)) [0..<n]"

definition fixture_settings :: "nat \<Rightarrow> settings" where
  "fixture_settings connections =
     \<lparr>download_connections = connections, block_timeout_seconds = 5\<rparr>"

definition fixture_empty :: "hash_queue \<Rightarrow> reservations" where
  \<comment> \<open>The table before \<^verbatim>\<open>initialize\<close> runs.\<close>
  "fixture_empty hs =
     \<lparr>hashes = hs, table = [], store = (\<lambda>_. reservation_new 0 0), next_ptr = 0,
      max_request = max_block_request, timeout_seconds = 5\<rparr>"

definition fixture_table :: "hash_queue \<Rightarrow> reservations" where
  \<comment> \<open>Two slots: slot 0 holds one hash, slot 1 is empty.\<close>
  "fixture_table hs =
     \<lparr>hashes = hs, table = [0, 1],
      store = (\<lambda>p. reservation_new p 5)(0 := (reservation_new 0 5)\<lparr>heights := [(7, 7)]\<rparr>),
      next_ptr = 2, max_request = max_block_request, timeout_seconds = 5\<rparr>"

definition fixture_busy :: "hash_queue \<Rightarrow> reservations" where
  \<comment> \<open>Three slots: slots 0 and 2 have measured rates, slot 1 is idle.\<close>
  "fixture_busy hs =
     \<lparr>hashes = hs, table = [0, 1, 2],
      store = (\<lambda>p. reservation_new p 5)
        (0 := (reservation_new 0 5)\<lparr>rate := \<lparr>events = 4, database = 1, window = 3\<rparr>\<rparr>,
         2 := (reservation_new 2 5)\<lparr>rate := \<lparr>events = 8, database = 0, window = 2\<rparr>\<rparr>),
      next_ptr = 3, max_request = max_block_request, timeout_seconds = 5\<rparr>"

definition fixture_tie :: reservations where
  \<comment> \<open>Three slots of sizes 1, 2 and 2.\<close>
  "fixture_tie =
     \<lparr>hashes = [], table = [0, 1, 2],
      store = (\<lambda>p. reservation_new p 5)
        (0 := (reservation_new 0 5)\<lparr>heights := [(7, 7)]\<rparr>,
         1 := (reservation_new 1 5)\<lparr>heights := [(8, 8), (9, 9)]\<rparr>,
         2 := (reservation_new 2 5)\<lparr>heights := [(10, 10), (11, 11)]\<rparr>),
      next_ptr = 3, max_request = max_block_request, timeout_seconds = 5\<rparr>"

definition fixture_real :: "real floating" where
  \<comment> \<open>Exact arithmetic in place of \<^verbatim>\<open>double\<close>.\<close>
  "fixture_real =
     \<lparr>fzero = 0, fadd = (+), fsub = (-), fmul = (*), fdiv = (/), fsqrt = sqrt, of_size = real,
      normal = (\<lambda>p. real (events p) / real (max 1 (window p - database p)))\<rparr>"

record fixture_chain =
  candidates_stale :: bool
  blocks_stale :: bool
  verdict :: code

record fixture_reservation =
  pending :: "(hash_digest \<times> nat) list"
  partitioned :: bool
  overdue :: bool

definition fixture_ops ::
  "(fixture_chain, fixture_reservation, hash_digest, (bool \<times> hash_digest) list,
    bool \<times> hash_digest) collaborators" where
  \<comment> \<open>A block is its hash; a message is the list of its inventories, each a witness flag
      and a hash.\<close>
  "fixture_ops =
     \<lparr>is_candidates_stale = candidates_stale,
      is_blocks_stale = blocks_stale,
      organize = (\<lambda>b h c. (verdict c, c)),
      unsubscribe = (\<lambda>c. c),
      request = (\<lambda>r. (map (\<lambda>e. (False, fst e)) (pending r), r)),
      reservation_stopped = partitioned,
      find_height_and_erase =
        (\<lambda>h r. (map_of (pending r) h, r\<lparr>pending := filter (\<lambda>e. fst e \<noteq> h) (pending r)\<rparr>)),
      update_history = (\<lambda>b r. r),
      expired = overdue,
      reservation_stop = (\<lambda>r. r\<lparr>partitioned := True\<rparr>),
      block_hash = (\<lambda>b. b),
      inventories = (\<lambda>m. m),
      to_witness = map (\<lambda>i. (True, snd i)),
      stopped_code = (\<lambda>h ec. h \<or> ec = channel_stopped \<or> ec = service_stopped)\<rparr>"

definition fixture_protocol ::
  "(fixture_chain, fixture_reservation, hash_digest, (bool \<times> hash_digest) list) protocol_block_in" where
  \<comment> \<open>A running channel that requires witness data from a witness peer, with two
      reserved hashes, at heights 200 and 201.\<close>
  "fixture_protocol =
     \<lparr>chain = \<lparr>candidates_stale = False, blocks_stale = True, verdict = success\<rparr>,
      reservation = \<lparr>pending = [(7, 200), (8, 201)], partitioned = False, overdue = False\<rparr>,
      require_witness = True, peer_witness = True, halted = False, trace = []\<rparr>"

section \<open>Properties of the reservation table\<close>

subsection \<open>The loops of initialize\<close>

lemma create_rows_unfold:
  "row < rows \<Longrightarrow>
   create_rows row rows st =
     create_rows (Suc row) rows
       (st\<lparr>store := (store st)(next_ptr st := reservation_new row (timeout_seconds st)),
           next_ptr := Suc (next_ptr st), table := table st @ [next_ptr st]\<rparr>)"
  by (simp add: create_rows.simps [of row] make_shared_def)

lemma create_rows_frame:
  "hashes (create_rows row rows st) = hashes st \<and>
   max_request (create_rows row rows st) = max_request st \<and>
   timeout_seconds (create_rows row rows st) = timeout_seconds st \<and>
   next_ptr (create_rows row rows st) = next_ptr st + (rows - row)"
proof (induction row rows st rule: create_rows.induct)
  case (1 row rows st)
  show ?case
  proof (cases "row < rows")
    case True
    with "1.IH" [OF True prod.collapse] show ?thesis
      by (simp add: create_rows_unfold make_shared_def)
  next
    case False
    then show ?thesis by (simp add: create_rows.simps [of row])
  qed
qed

lemma upt_add_Suc: "[n ..< n + Suc k] = n # [Suc n ..< Suc n + k]"
  by (simp add: upt_conv_Cons)

lemma upt_shift:
  assumes "row < rows"
  shows "[n ..< n + (rows - row)] = n # [Suc n ..< Suc n + (rows - Suc row)]"
proof -
  from assms have "rows - row = Suc (rows - Suc row)" by simp
  then show ?thesis by (simp only: upt_add_Suc)
qed

lemma create_rows_table:
  "table (create_rows row rows st) = table st @ [next_ptr st ..< next_ptr st + (rows - row)]"
proof (induction row rows st rule: create_rows.induct)
  case (1 row rows st)
  show ?case
  proof (cases "row < rows")
    case True
    let ?st1 = "st\<lparr>store := (store st)(next_ptr st := reservation_new row (timeout_seconds st)),
           next_ptr := Suc (next_ptr st), table := table st @ [next_ptr st]\<rparr>"
    from "1.IH" [OF True prod.collapse]
    have "table (create_rows (Suc row) rows ?st1) =
        table ?st1 @ [next_ptr ?st1 ..< next_ptr ?st1 + (rows - Suc row)]"
      by (simp add: make_shared_def)
    then have "table (create_rows row rows st) =
        (table st @ [next_ptr st]) @ [Suc (next_ptr st) ..< Suc (next_ptr st) + (rows - Suc row)]"
      by (simp add: create_rows_unfold [OF True])
    then show ?thesis by (simp only: upt_shift [OF True] append_assoc append_Cons append_Nil)
  next
    case False
    then show ?thesis by (simp add: create_rows.simps [of row])
  qed
qed

lemma create_rows_store:
  "store (create_rows row rows st) p =
     (if next_ptr st \<le> p \<and> p < next_ptr st + (rows - row)
      then reservation_new (row + (p - next_ptr st)) (timeout_seconds st)
      else store st p)"
proof (induction row rows st arbitrary: p rule: create_rows.induct)
  case (1 row rows st)
  show ?case
  proof (cases "row < rows")
    case True
    with "1.IH" [OF True prod.collapse, of p] show ?thesis
      by (auto simp: create_rows_unfold make_shared_def Suc_diff_Suc)
  next
    case False
    then show ?thesis by (auto simp: create_rows.simps [of row])
  qed
qed

lemma row_loop_snd:
  assumes "rows \<le> length (table (snd ls))" and "distinct (table (snd ls))"
    and "rows - row \<le> length (hashes (snd ls))"
  shows "hashes (snd (row_loop row rows ls)) = drop (rows - row) (hashes (snd ls)) \<and>
     table (snd (row_loop row rows ls)) = table (snd ls) \<and>
     next_ptr (snd (row_loop row rows ls)) = next_ptr (snd ls) \<and>
     max_request (snd (row_loop row rows ls)) = max_request (snd ls) \<and>
     timeout_seconds (snd (row_loop row rows ls)) = timeout_seconds (snd ls) \<and>
     (\<forall>r. row \<le> r \<and> r < rows \<longrightarrow>
        store (snd (row_loop row rows ls)) (table (snd ls) ! r) =
          reservation_insert (hashes (snd ls) ! (r - row)) (store (snd ls) (table (snd ls) ! r))) \<and>
     (\<forall>p. (\<forall>r. row \<le> r \<and> r < rows \<longrightarrow> table (snd ls) ! r \<noteq> p) \<longrightarrow>
        store (snd (row_loop row rows ls)) p = store (snd ls) p)"
  using assms
proof (induction row rows ls rule: row_loop.induct)
  case (1 row rows ls)
  show ?case
  proof (cases "row < rows")
    case False
    then show ?thesis by (auto simp: row_loop.simps [of row])
  next
    case True
    obtain loc st where ls: "ls = (loc, st)" by (cases ls)
    from True have diff: "rows - row = Suc (rows - Suc row)" by simp
    with "1.prems" ls obtain e q where q: "hashes st = e # q" by (cases "hashes st") auto
    let ?p = "table st ! row"
    let ?st1 = "insert_at ?p e (st\<lparr>hashes := q\<rparr>)"
    let ?st' = "snd (row_loop row rows ls)"
    have step: "dequeue_insert ?p (loc, st) = (e, ?st1)"
      by (simp add: dequeue_insert_def q)
    have pre: "rows \<le> length (table ?st1)" "distinct (table ?st1)"
      "rows - Suc row \<le> length (hashes ?st1)"
      using "1.prems" ls q diff by (simp_all add: insert_at_def)
    have unfold: "row_loop row rows ls = row_loop (Suc row) rows (e, ?st1)"
      by (simp add: row_loop.simps [of row] True ls step)
    have eq1: "dequeue_insert (table (snd ls) ! row) ls = (e, ?st1)"
      by (simp add: ls step)
    from "1.IH" [OF True, unfolded eq1 snd_conv, OF pre]
    have post: "hashes ?st' = drop (rows - Suc row) (hashes ?st1)"
      "table ?st' = table ?st1" "next_ptr ?st' = next_ptr ?st1"
      "max_request ?st' = max_request ?st1" "timeout_seconds ?st' = timeout_seconds ?st1"
      "\<forall>r. Suc row \<le> r \<and> r < rows \<longrightarrow>
         store ?st' (table ?st1 ! r) =
           reservation_insert (hashes ?st1 ! (r - Suc row)) (store ?st1 (table ?st1 ! r))"
      "\<forall>p. (\<forall>r. Suc row \<le> r \<and> r < rows \<longrightarrow> table ?st1 ! r \<noteq> p) \<longrightarrow>
         store ?st' p = store ?st1 p"
      unfolding unfold by blast+
    have tab: "table ?st1 = table st" and hs: "hashes ?st1 = q"
      by (simp_all add: insert_at_def)
    have other: "table st ! r \<noteq> ?p" if "Suc row \<le> r" "r < rows" for r
      using that "1.prems" ls by (simp add: nth_eq_iff_index_eq)
    have first: "store ?st' ?p = reservation_insert e (store st ?p)"
    proof -
      have "store ?st' ?p = store ?st1 ?p" using post(7) other by (simp add: tab)
      then show ?thesis by (simp add: insert_at_def)
    qed
    have slots: "store ?st' (table st ! r) =
        reservation_insert (hashes st ! (r - row)) (store st (table st ! r))"
      if r: "row \<le> r \<and> r < rows" for r
    proof (cases "r = row")
      case True
      with first show ?thesis by (simp add: q)
    next
      case False
      with r have r': "Suc row \<le> r" "r < rows" by simp_all
      then have "store ?st' (table st ! r) =
          reservation_insert (q ! (r - Suc row)) (store ?st1 (table st ! r))"
        using post(6) by (simp add: tab hs)
      moreover have "q ! (r - Suc row) = hashes st ! (r - row)"
        using r' by (simp add: q Suc_diff_Suc less_eq_Suc_le)
      moreover have "store ?st1 (table st ! r) = store st (table st ! r)"
        using other [OF r'] by (simp add: insert_at_def)
      ultimately show ?thesis by simp
    qed
    have frame: "store ?st' p = store st p"
      if p: "\<forall>r. row \<le> r \<and> r < rows \<longrightarrow> table st ! r \<noteq> p" for p
    proof -
      from p have "\<forall>r. Suc row \<le> r \<and> r < rows \<longrightarrow> table ?st1 ! r \<noteq> p"
        by (simp add: tab)
      then have "store ?st' p = store ?st1 p" using post(7) by blast
      moreover from p True have "?p \<noteq> p" by simp
      ultimately show ?thesis by (simp add: insert_at_def)
    qed
    have "hashes ?st' = drop (rows - row) (hashes st)"
      using post(1) by (simp add: hs q diff)
    moreover have "table ?st' = table st" "next_ptr ?st' = next_ptr st"
      "max_request ?st' = max_request st" "timeout_seconds ?st' = timeout_seconds st"
      using post(2-5) by (simp_all add: insert_at_def)
    ultimately show ?thesis using slots frame by (simp add: ls)
  qed
qed

lemma base_loop_snd:
  assumes "rows \<le> length (table (snd ls))" and "distinct (table (snd ls))"
    and "(bound - base) * rows \<le> length (hashes (snd ls))"
  shows "hashes (snd (base_loop base bound rows ls)) =
       drop ((bound - base) * rows) (hashes (snd ls)) \<and>
     table (snd (base_loop base bound rows ls)) = table (snd ls) \<and>
     next_ptr (snd (base_loop base bound rows ls)) = next_ptr (snd ls) \<and>
     max_request (snd (base_loop base bound rows ls)) = max_request (snd ls) \<and>
     timeout_seconds (snd (base_loop base bound rows ls)) = timeout_seconds (snd ls) \<and>
     (\<forall>r<rows.
        store (snd (base_loop base bound rows ls)) (table (snd ls) ! r) =
          (store (snd ls) (table (snd ls) ! r))
            \<lparr>heights := heights (store (snd ls) (table (snd ls) ! r)) @
               map (\<lambda>j. hashes (snd ls) ! (j * rows + r)) [0..<bound - base]\<rparr>) \<and>
     (\<forall>p. (\<forall>r<rows. table (snd ls) ! r \<noteq> p) \<longrightarrow>
        store (snd (base_loop base bound rows ls)) p = store (snd ls) p)"
  using assms
proof (induction base bound rows ls rule: base_loop.induct)
  case (1 base bound rows ls)
  let ?st = "snd ls"
  let ?st' = "snd (base_loop base bound rows ls)"
  show ?case
  proof (cases "base < bound")
    case False
    then show ?thesis by (simp add: base_loop.simps [of base])
  next
    case True
    let ?ls1 = "row_loop 0 rows ls"
    let ?st1 = "snd ?ls1"
    from True have diff: "bound - base = Suc (bound - Suc base)" by simp
    with "1.prems"(3) have enough: "rows - 0 \<le> length (hashes ?st)"
      and rest: "(bound - Suc base) * rows \<le> length (hashes ?st) - rows" by simp_all
    from row_loop_snd [OF "1.prems"(1,2) enough]
    have row: "hashes ?st1 = drop rows (hashes ?st)" "table ?st1 = table ?st"
      "next_ptr ?st1 = next_ptr ?st" "max_request ?st1 = max_request ?st"
      "timeout_seconds ?st1 = timeout_seconds ?st"
      "\<forall>r<rows. store ?st1 (table ?st ! r) =
         reservation_insert (hashes ?st ! r) (store ?st (table ?st ! r))"
      "\<forall>p. (\<forall>r<rows. table ?st ! r \<noteq> p) \<longrightarrow> store ?st1 p = store ?st p"
      by simp_all
    have pre: "rows \<le> length (table ?st1)" "distinct (table ?st1)"
      "(bound - Suc base) * rows \<le> length (hashes ?st1)"
      using "1.prems" rest by (simp_all add: row)
    have unfold: "base_loop base bound rows ls = base_loop (Suc base) bound rows ?ls1"
      by (simp add: base_loop.simps [of base] True)
    from "1.IH" [OF True pre]
    have post: "hashes ?st' = drop ((bound - Suc base) * rows) (hashes ?st1)"
      "table ?st' = table ?st1" "next_ptr ?st' = next_ptr ?st1"
      "max_request ?st' = max_request ?st1" "timeout_seconds ?st' = timeout_seconds ?st1"
      "\<forall>r<rows. store ?st' (table ?st1 ! r) =
         (store ?st1 (table ?st1 ! r))
           \<lparr>heights := heights (store ?st1 (table ?st1 ! r)) @
              map (\<lambda>j. hashes ?st1 ! (j * rows + r)) [0..<bound - Suc base]\<rparr>"
      "\<forall>p. (\<forall>r<rows. table ?st1 ! r \<noteq> p) \<longrightarrow> store ?st' p = store ?st1 p"
      by (simp_all add: unfold)
    have later: "hashes ?st1 ! (j * rows + r) = hashes ?st ! (Suc j * rows + r)" for j r
      using enough by (simp add: row(1) add.assoc)
    have slots: "store ?st' (table ?st ! r) =
        (store ?st (table ?st ! r))
          \<lparr>heights := heights (store ?st (table ?st ! r)) @
             map (\<lambda>j. hashes ?st ! (j * rows + r)) [0..<bound - base]\<rparr>"
      if r: "r < rows" for r
    proof -
      have "map (\<lambda>j. hashes ?st ! (j * rows + r)) [0..<bound - base] =
          hashes ?st ! r # map (\<lambda>j. hashes ?st ! (Suc j * rows + r)) [0..<bound - Suc base]"
        unfolding diff by (simp only: map_upt_Suc) simp
      with post(6) row(6) r show ?thesis
        by (simp add: row(2) later reservation_insert_def)
    qed
    have frame: "store ?st' p = store ?st p" if "\<forall>r<rows. table ?st ! r \<noteq> p" for p
      using that post(7) row(7) by (simp add: row(2))
    have "hashes ?st' = drop ((bound - base) * rows) (hashes ?st)"
      using post(1) by (simp add: row(1) diff add.commute)
    moreover have "table ?st' = table ?st" "next_ptr ?st' = next_ptr ?st"
      "max_request ?st' = max_request ?st" "timeout_seconds ?st' = timeout_seconds ?st"
      using post(2-5) by (simp_all add: row)
    ultimately show ?thesis using slots frame by simp
  qed
qed

lemma allocation_fits: "min (M::nat) (r * c) div r * r \<le> M"
  by (rule order_trans [OF div_times_less_eq_dividend]) simp

lemma allocation_per_row:
  assumes "0 < r"
  shows "min (M::nat) (r * c) div r = min (M div r) c"
proof (cases "M \<le> r * c")
  case True
  then have "M div r \<le> r * c div r" by (rule div_le_mono)
  with assms have "M div r \<le> c" by simp
  with True show ?thesis by (simp add: min_def)
next
  case False
  then have "r * c div r \<le> M div r" by (intro div_le_mono) simp
  with assms have "c \<le> M div r" by simp
  with False assms show ?thesis by (simp add: min_def)
qed

lemma initialize_none:
  "min (min (max_size_t div max_request st) K) (length (hashes st)) = 0 \<Longrightarrow>
   reservations_initialize K st = st"
  by (simp add: reservations_initialize_def Let_def hash_queue_size_def)

lemma initialize_some:
  assumes empty: "table st = []"
    and rows: "rows = min (min (max_size_t div max_request st) K) (length (hashes st))"
    and per: "per = min (length (hashes st)) (rows * max_request st) div rows"
    and pos: "0 < rows"
  shows "table (reservations_initialize K st) = [next_ptr st ..< next_ptr st + rows]"
    and "hashes (reservations_initialize K st) = drop (per * rows) (hashes st)"
    and "\<forall>r<rows. store (reservations_initialize K st) (next_ptr st + r) =
           (reservation_new r (timeout_seconds st))
             \<lparr>heights := map (\<lambda>j. hashes st ! (j * rows + r)) [0..<per]\<rparr>"
    and "max_request (reservations_initialize K st) = max_request st"
proof -
  let ?st1 = "create_rows 0 rows st"
  let ?ls = "(unset, ?st1)"
  have "reservations_initialize K st =
      (if rows = 0 then st else snd (base_loop 0 per rows ?ls))"
    unfolding per rows reservations_initialize_def Let_def hash_queue_size_def by (rule refl)
  with pos have init: "reservations_initialize K st = snd (base_loop 0 per rows ?ls)"
    by simp
  have tab: "table ?st1 = [next_ptr st ..< next_ptr st + rows]"
    by (simp add: create_rows_table empty)
  have hs: "hashes ?st1 = hashes st" and mr: "max_request ?st1 = max_request st"
    by (simp_all add: create_rows_frame)
  have enough: "(per - 0) * rows \<le> length (hashes (snd ?ls))"
    unfolding per by (simp add: hs allocation_fits)
  have len: "rows \<le> length (table (snd ?ls))" and dist: "distinct (table (snd ?ls))"
    by (simp_all add: tab)
  note loop = base_loop_snd [OF len dist enough]
  from loop show "table (reservations_initialize K st) = [next_ptr st ..< next_ptr st + rows]"
    by (simp add: init tab)
  from loop show "hashes (reservations_initialize K st) = drop (per * rows) (hashes st)"
    by (simp add: init hs)
  from loop show "max_request (reservations_initialize K st) = max_request st"
    by (simp add: init mr)
  show "\<forall>r<rows. store (reservations_initialize K st) (next_ptr st + r) =
      (reservation_new r (timeout_seconds st))
        \<lparr>heights := map (\<lambda>j. hashes st ! (j * rows + r)) [0..<per]\<rparr>"
  proof (intro allI impI)
    fix r assume r: "r < rows"
    then have at: "table (snd ?ls) ! r = next_ptr st + r" by (simp add: tab)
    from r have new: "store ?st1 (next_ptr st + r) = reservation_new r (timeout_seconds st)"
      by (simp add: create_rows_store)
    from loop r have "store (snd (base_loop 0 per rows ?ls)) (table (snd ?ls) ! r) =
        (store (snd ?ls) (table (snd ?ls) ! r))
          \<lparr>heights := heights (store (snd ?ls) (table (snd ?ls) ! r)) @
             map (\<lambda>j. hashes (snd ?ls) ! (j * rows + r)) [0..<per - 0]\<rparr>"
      by blast
    then show "store (reservations_initialize K st) (next_ptr st + r) =
        (reservation_new r (timeout_seconds st))
          \<lparr>heights := map (\<lambda>j. hashes st ! (j * rows + r)) [0..<per]\<rparr>"
      unfolding at by (simp add: init hs new reservation_new_def)
  qed
qed

lemma sum_list_same: "\<forall>x\<in>set xs. f x = (c::nat) \<Longrightarrow> sum_list (map f xs) = c * length xs"
  by (induction xs) auto

lemma initialize_sorted:
  assumes "table st = []" and "0 < max_request st"
  shows "sorted_wrt (<) (map (\<lambda>q. slot (store (reservations_initialize K st) q))
           (table (reservations_initialize K st)))"
proof (cases "min (min (max_size_t div max_request st) K) (length (hashes st)) = 0")
  case True
  then show ?thesis using assms(1) by (simp add: initialize_none)
next
  case False
  define rows where "rows = min (min (max_size_t div max_request st) K) (length (hashes st))"
  define per where "per = min (length (hashes st)) (rows * max_request st) div rows"
  from False have pos: "0 < rows" by (simp add: rows_def)
  note some = initialize_some [OF assms(1) rows_def per_def pos]
  have "slot (store (reservations_initialize K st) (next_ptr st + r)) = r" if "r < rows" for r
    using some(3) that by (simp add: reservation_new_def)
  then have "map (\<lambda>q. slot (store (reservations_initialize K st) q))
      [next_ptr st ..< next_ptr st + rows] = [0 ..< rows]"
    by (intro nth_equalityI) simp_all
  then show ?thesis by (simp add: some(1))
qed

subsection \<open>The fixtures\<close>

lemma length_fixture_queue: "length (fixture_queue n) = n"
  by (simp add: fixture_queue_def)

lemma fixture_queue_5:
  "fixture_queue 5 = [(0, 0), (1, 1), (2, 2), (3, 3), (4, 4)]"
  by (simp add: fixture_queue_def upt_rec)

lemma reservations_new_fixture:
  "reservations_new hs (fixture_settings K) = reservations_initialize K (fixture_empty hs)"
  by (simp add: reservations_new_def fixture_settings_def fixture_empty_def)

lemma fixture_empty_fields:
  "table (fixture_empty hs) = []" "hashes (fixture_empty hs) = hs"
  "max_request (fixture_empty hs) = 50000" "next_ptr (fixture_empty hs) = 0"
  by (simp_all add: fixture_empty_def max_block_request_def)

lemma max_rows_value: "max_size_t div 50000 = 368934881474191"
  by (simp add: max_size_t_def)

lemma fixture_table_fields:
  "table (fixture_table hs) = [0, 1]" "hashes (fixture_table hs) = hs"
  "max_request (fixture_table hs) = 50000"
  "heights (store (fixture_table hs) 0) = [(7, 7)]"
  "heights (store (fixture_table hs) (Suc 0)) = []"
  "slot (store (fixture_table hs) 0) = 0" "slot (store (fixture_table hs) (Suc 0)) = 1"
  "size_at (fixture_table hs) 0 = 1" "size_at (fixture_table hs) (Suc 0) = 0"
  by (simp_all add: fixture_table_def max_block_request_def reservation_new_def size_at_def
      reservation_size_def)

lemma find_maximal_fixture: "find_maximal (fixture_table hs) = Some 0"
  by (simp add: find_maximal_def fixture_table_fields)

lemma fixture_tie_fields:
  "table fixture_tie = [0, 1, 2]"
  "size_at fixture_tie 0 = 1" "size_at fixture_tie (Suc 0) = 2" "size_at fixture_tie 2 = 2"
  "slot (store fixture_tie 0) = 0" "slot (store fixture_tie (Suc 0)) = 1"
  "slot (store fixture_tie 2) = 2"
  by (simp_all add: fixture_tie_def reservation_new_def size_at_def reservation_size_def)

lemma find_maximal_tie: "find_maximal fixture_tie = Some 1"
  by (simp add: find_maximal_def fixture_tie_fields)

subsection \<open>initialize distributes round-robin\<close>

text \<open>
  Claim C1, as the code has it. \<^verbatim>\<open>reservations::initialize(K)\<close> runs on the empty table
  of the constructor, with \<open>M\<close> queued entries. It creates exactly
  \<open>K' = min (min (SIZE_MAX / max_request) K) M\<close> slots, in distinct objects, with the slot
  ids \<open>0\<close> to \<open>K' - 1\<close>; when \<open>K' = 0\<close> the state is unchanged. Every slot receives
  \<open>P = min (M / K') max_request\<close> entries, the allocation being capped at \<open>max_request\<close>
  per slot: the first \<open>P * K'\<close> entries of the queue are distributed, the \<open>i\<close>-th one
  (from 0) to slot \<open>i mod K'\<close>, at position \<open>i div K'\<close>. The other entries stay in the
  queue, and the slot sizes and the queue size add up to \<open>M\<close>.
\<close>

theorem initialize_round_robin:
  assumes "table st = []" and "0 < max_request st"
    and "rows = min (min (max_size_t div max_request st) K) (length (hashes st))"
    and "per = min (length (hashes st)) (rows * max_request st) div rows"
    and "st' = reservations_initialize K st"
  shows "length (table st') = rows \<and> distinct (table st') \<and>
    (rows = 0 \<longrightarrow> st' = st) \<and>
    per = min (length (hashes st) div rows) (max_request st) \<and>
    (\<forall>r<rows. slot (store st' (table st' ! r)) = r \<and> size_at st' (table st' ! r) = per) \<and>
    (\<forall>i<per * rows.
       heights (store st' (table st' ! (i mod rows))) ! (i div rows) = hashes st ! i) \<and>
    hashes st' = drop (per * rows) (hashes st) \<and>
    (\<Sum>p\<leftarrow>table st'. size_at st' p) + length (hashes st') = length (hashes st)"
proof (cases "rows = 0")
  case True
  with assms(3) have "st' = st" unfolding assms(5) by (simp add: initialize_none)
  with True assms(1,4) show ?thesis by simp
next
  case False
  then have pos: "0 < rows" by simp
  note some = initialize_some [OF assms(1) assms(3) assms(4) pos, folded assms(5)]
  have tab: "table st' = [next_ptr st ..< next_ptr st + rows]" by (rule some(1))
  have hs: "hashes st' = drop (per * rows) (hashes st)" by (rule some(2))
  have at: "table st' ! r = next_ptr st + r" if "r < rows" for r
    using that by (simp add: tab)
  have slots: "store st' (table st' ! r) =
      (reservation_new r (timeout_seconds st))
        \<lparr>heights := map (\<lambda>j. hashes st ! (j * rows + r)) [0..<per]\<rparr>" if "r < rows" for r
    using that some(3) by (simp add: at)
  have per': "per = min (length (hashes st) div rows) (max_request st)"
    unfolding assms(4) by (rule allocation_per_row [OF pos])
  have fits: "per * rows \<le> length (hashes st)"
    unfolding assms(4) by (rule allocation_fits)
  have each: "\<forall>r<rows. slot (store st' (table st' ! r)) = r \<and> size_at st' (table st' ! r) = per"
    by (simp add: slots size_at_def reservation_size_def reservation_new_def)
  have robin: "\<forall>i<per * rows.
      heights (store st' (table st' ! (i mod rows))) ! (i div rows) = hashes st ! i"
  proof (intro allI impI)
    fix i assume i: "i < per * rows"
    then have d: "i div rows < per" by (simp add: less_mult_imp_div_less)
    from pos have m: "i mod rows < rows" by simp
    show "heights (store st' (table st' ! (i mod rows))) ! (i div rows) = hashes st ! i"
      using d by (simp add: slots [OF m])
  qed
  have "\<forall>p\<in>set (table st'). size_at st' p = per"
    using each by (metis in_set_conv_nth tab length_upt add_diff_cancel_left')
  then have "(\<Sum>p\<leftarrow>table st'. size_at st' p) = per * length (table st')"
    by (rule sum_list_same)
  then have "(\<Sum>p\<leftarrow>table st'. size_at st' p) = per * rows"
    by (simp add: tab)
  with fits have total: "(\<Sum>p\<leftarrow>table st'. size_at st' p) + length (hashes st') = length (hashes st)"
    by (simp add: hs)
  from tab False per' each robin hs total show ?thesis by simp
qed

text \<open>
  An instance for C1: five queued entries and two requested slots give two slots of two
  entries, the entry of height 3 second in slot 1, and one entry left in the queue; no
  requested slot leaves the state as it was.
\<close>

theorem initialize_round_robin_witness:
  "table (fixture_empty (fixture_queue 5)) = [] \<and>
   0 < max_request (fixture_empty (fixture_queue 5)) \<and>
   length (table (reservations_new (fixture_queue 5) (fixture_settings 2))) = 2 \<and>
   hashes (reservations_new (fixture_queue 5) (fixture_settings 2)) = [(4, 4)] \<and>
   heights (store (reservations_new (fixture_queue 5) (fixture_settings 2))
     (table (reservations_new (fixture_queue 5) (fixture_settings 2)) ! 1)) ! 1 = (3, 3) \<and>
   slot (store (reservations_new (fixture_queue 5) (fixture_settings 2))
     (table (reservations_new (fixture_queue 5) (fixture_settings 2)) ! 1)) = 1 \<and>
   (\<Sum>p\<leftarrow>table (reservations_new (fixture_queue 5) (fixture_settings 2)).
      size_at (reservations_new (fixture_queue 5) (fixture_settings 2)) p) +
     length (hashes (reservations_new (fixture_queue 5) (fixture_settings 2))) = 5 \<and>
   reservations_new (fixture_queue 5) (fixture_settings 0) = fixture_empty (fixture_queue 5)"
proof -
  let ?st = "fixture_empty (fixture_queue 5)"
  let ?st' = "reservations_new (fixture_queue 5) (fixture_settings 2)"
  have empty: "table ?st = []" and request: "0 < max_request ?st"
    by (simp_all add: fixture_empty_fields)
  have rows: "2 = min (min (max_size_t div max_request ?st) 2) (length (hashes ?st))"
    by (simp add: fixture_empty_fields max_rows_value length_fixture_queue)
  have per: "2 = min (length (hashes ?st)) (2 * max_request ?st) div 2"
    by (simp add: fixture_empty_fields length_fixture_queue)
  have new: "?st' = reservations_initialize 2 ?st" by (rule reservations_new_fixture)
  note two = initialize_round_robin [OF empty request rows per new]
  have none: "0 = min (min (max_size_t div max_request ?st) 0) (length (hashes ?st))"
    by simp
  have idle: "0 = min (length (hashes ?st)) (0 * max_request ?st) div 0" by simp
  note zero = initialize_round_robin
    [OF empty request none idle reservations_new_fixture [of "fixture_queue 5" 0]]
  from two have len: "length (table ?st') = 2" by blast
  from two have rest: "hashes ?st' = drop (2 * 2) (hashes ?st)" by blast
  from two have robin: "\<forall>i<2 * 2.
      heights (store ?st' (table ?st' ! (i mod 2))) ! (i div 2) = hashes ?st ! i" by blast
  from robin [rule_format, of 3] have third: "heights (store ?st' (table ?st' ! 1)) ! 1 = (3, 3)"
    by (simp add: fixture_empty_fields fixture_queue_5)
  from two have each: "\<forall>r<2. slot (store ?st' (table ?st' ! r)) = r \<and>
      size_at ?st' (table ?st' ! r) = 2" by blast
  from each [rule_format, of 1] have id: "slot (store ?st' (table ?st' ! 1)) = 1" by simp
  from two have total: "(\<Sum>p\<leftarrow>table ?st'. size_at ?st' p) + length (hashes ?st') =
      length (hashes ?st)" by blast
  from zero have same: "reservations_new (fixture_queue 5) (fixture_settings 0) = ?st" by blast
  from empty request len rest third id total same show ?thesis
    by (simp add: fixture_empty_fields fixture_queue_5)
qed

text \<open>
  Where C1 fails as stated: with one slot and 50001 queued entries, \<open>K' = 1\<close> and
  \<open>(M / K') * K' = 50001\<close>, yet the slot takes 50000 entries only and one entry stays in
  the queue.
\<close>

theorem initialize_cap_counterexample:
  "min (min (max_size_t div max_block_request) 1) (length (fixture_queue 50001)) = 1 \<and>
   length (fixture_queue 50001) div 1 * 1 = 50001 \<and>
   hashes (reservations_new (fixture_queue 50001) (fixture_settings 1)) =
     drop 50000 (fixture_queue 50001) \<and>
   length (hashes (reservations_new (fixture_queue 50001) (fixture_settings 1))) = 1 \<and>
   hashes (reservations_new (fixture_queue 50001) (fixture_settings 1)) \<noteq>
     drop (length (fixture_queue 50001) div 1 * 1) (fixture_queue 50001)"
proof -
  let ?st = "fixture_empty (fixture_queue 50001)"
  have rows: "1 = min (min (max_size_t div max_request ?st) 1) (length (hashes ?st))"
    by (simp add: fixture_empty_fields max_rows_value length_fixture_queue)
  have per: "50000 = min (length (hashes ?st)) (1 * max_request ?st) div 1"
    by (simp add: fixture_empty_fields length_fixture_queue)
  have "hashes (reservations_initialize 1 ?st) = drop (50000 * 1) (hashes ?st)"
    by (rule initialize_some(2) [OF fixture_empty_fields(1) rows per]) simp
  then have rest: "hashes (reservations_new (fixture_queue 50001) (fixture_settings 1)) =
      drop 50000 (fixture_queue 50001)"
    by (simp add: reservations_new_fixture fixture_empty_fields)
  then have one: "length (hashes (reservations_new (fixture_queue 50001) (fixture_settings 1))) = 1"
    by (simp add: length_fixture_queue)
  have "length (drop (length (fixture_queue 50001) div 1 * 1) (fixture_queue 50001)) = 0"
    by simp
  with one have "hashes (reservations_new (fixture_queue 50001) (fixture_settings 1)) \<noteq>
     drop (length (fixture_queue 50001) div 1 * 1) (fixture_queue 50001)"
    by (metis zero_neq_one)
  with rest one show ?thesis
    by (simp add: max_block_request_def max_rows_value length_fixture_queue)
qed

subsection \<open>populate: reserve, then partition\<close>

lemma max_element_split:
  fixes f :: "'a \<Rightarrow> nat"
  shows "\<exists>ys zs. l # xs = ys @ max_element (\<lambda>a b. f a < f b) l xs # zs \<and>
           (\<forall>y\<in>set ys. f y < f (max_element (\<lambda>a b. f a < f b) l xs)) \<and>
           (\<forall>z\<in>set zs. f z \<le> f (max_element (\<lambda>a b. f a < f b) l xs))"
proof (induction xs arbitrary: l)
  case Nil
  show ?case by (intro exI [of _ "[]"]) simp
next
  case (Cons x xs)
  let ?c = "\<lambda>a b. f a < f b"
  show ?case
  proof (cases "f l < f x")
    case True
    then have eq: "max_element ?c l (x # xs) = max_element ?c x xs" by simp
    from Cons.IH [of x] obtain ys zs where
      split: "x # xs = ys @ max_element ?c x xs # zs"
      and before: "\<forall>y\<in>set ys. f y < f (max_element ?c x xs)"
      and after: "\<forall>z\<in>set zs. f z \<le> f (max_element ?c x xs)" by blast
    have "x \<in> set (ys @ max_element ?c x xs # zs)" using split by (metis list.set_intros(1))
    then have "f x \<le> f (max_element ?c x xs)" using before after by fastforce
    with True have "f l < f (max_element ?c x xs)" by simp
    with split before after
    have "l # x # xs = (l # ys) @ max_element ?c x xs # zs \<and>
        (\<forall>y\<in>set (l # ys). f y < f (max_element ?c x xs)) \<and>
        (\<forall>z\<in>set zs. f z \<le> f (max_element ?c x xs))" by simp
    then show ?thesis unfolding eq by blast
  next
    case False
    then have eq: "max_element ?c l (x # xs) = max_element ?c l xs" by simp
    from Cons.IH [of l] obtain ys zs where
      split: "l # xs = ys @ max_element ?c l xs # zs"
      and before: "\<forall>y\<in>set ys. f y < f (max_element ?c l xs)"
      and after: "\<forall>z\<in>set zs. f z \<le> f (max_element ?c l xs)" by blast
    show ?thesis
    proof (cases ys)
      case Nil
      with split have m: "max_element ?c l xs = l" and zs: "zs = xs"
        by (metis append_Nil list.inject)+
      have "l # x # xs = [] @ l # (x # xs) \<and> (\<forall>y\<in>set []. f y < f l) \<and>
          (\<forall>z\<in>set (x # xs). f z \<le> f l)"
        using False after m zs by simp
      then show ?thesis unfolding eq m by blast
    next
      case (Cons y ys')
      with split have y: "y = l" and xs: "xs = ys' @ max_element ?c l xs # zs"
        by (metis append_Cons list.inject)+
      from before Cons y have "f l < f (max_element ?c l xs)" by simp
      with False have "f x < f (max_element ?c l xs)" by simp
      with before Cons y after xs
      have "l # x # xs = (l # x # ys') @ max_element ?c l xs # zs \<and>
          (\<forall>y\<in>set (l # x # ys'). f y < f (max_element ?c l xs)) \<and>
          (\<forall>z\<in>set zs. f z \<le> f (max_element ?c l xs))" by simp
      then show ?thesis unfolding eq by blast
    qed
  qed
qed

lemma find_maximal_empty: "table st = [] \<Longrightarrow> find_maximal st = None"
  by (simp add: find_maximal_def)

lemma find_maximal_split:
  assumes "table st \<noteq> []"
  shows "\<exists>m ys zs. find_maximal st = Some m \<and> table st = ys @ m # zs \<and>
           (\<forall>y\<in>set ys. size_at st y < size_at st m) \<and>
           (\<forall>z\<in>set zs. size_at st z \<le> size_at st m)"
proof -
  from assms obtain p ps where t: "table st = p # ps" by (cases "table st") auto
  from max_element_split [of p ps "size_at st"] t show ?thesis
    by (auto simp: find_maximal_def)
qed

lemma reserve_loop_snd:
  "allocation - block \<le> length (hashes (snd ls)) \<Longrightarrow>
   snd (reserve_loop block allocation p ls) =
     (snd ls)\<lparr>hashes := drop (allocation - block) (hashes (snd ls)),
       store := (store (snd ls))(p := (store (snd ls) p)
         \<lparr>heights := heights (store (snd ls) p) @ take (allocation - block) (hashes (snd ls))\<rparr>)\<rparr>"
proof (induction block allocation p ls rule: reserve_loop.induct)
  case (1 block allocation minimal ls)
  show ?case
  proof (cases "block < allocation")
    case False
    then show ?thesis by (simp add: reserve_loop.simps [of block])
  next
    case True
    obtain loc st where ls: "ls = (loc, st)" by (cases ls)
    from True have diff: "allocation - block = Suc (allocation - Suc block)" by simp
    with "1.prems" ls obtain e q where q: "hashes st = e # q" by (cases "hashes st") auto
    have step: "dequeue_insert minimal (loc, st) = (e, insert_at minimal e (st\<lparr>hashes := q\<rparr>))"
      by (simp add: dequeue_insert_def q)
    have "allocation - Suc block \<le> length (hashes (snd (dequeue_insert minimal ls)))"
      using "1.prems" ls q diff by (simp add: step insert_at_def)
    from "1.IH" [OF True this] show ?thesis
      by (simp add: reserve_loop.simps [of block] True step ls q diff insert_at_def
          reservation_insert_def fun_upd_def cong: if_cong)
  qed
qed

lemma reserve_result:
  assumes "size_at st p \<le> max_request st"
  shows "reservations_reserve p st =
    (heights (store st p) @
       take (min (length (hashes st)) (max_request st - size_at st p)) (hashes st) \<noteq> [],
     st\<lparr>hashes := drop (min (length (hashes st)) (max_request st - size_at st p)) (hashes st),
        store := (store st)(p := (store st p)
          \<lparr>heights := heights (store st p) @
             take (min (length (hashes st)) (max_request st - size_at st p)) (hashes st)\<rparr>)\<rparr>)"
proof -
  let ?n = "min (length (hashes st)) (max_request st - size_at st p)"
  have "?n - 0 \<le> length (hashes (snd (unset, st)))" by simp
  from reserve_loop_snd [OF this, of p] assms show ?thesis
    by (simp add: reservations_reserve_def Let_def hash_queue_size_def size_t_minus_def
        reservation_empty_def)
qed

lemma reservation_partition_fills:
  assumes "m \<noteq> p"
  shows "fst (reservation_partition m p st) = (heights (store st m) \<noteq> [])"
    and "heights (store (snd (reservation_partition m p st)) p) =
           heights (store st p) @ take ((size_at st m + 1) div 2) (heights (store st m))"
    and "heights (store (snd (reservation_partition m p st)) m) =
           drop ((size_at st m + 1) div 2) (heights (store st m))"
    and "stopped (store (snd (reservation_partition m p st)) m)"
    and "hashes (snd (reservation_partition m p st)) = hashes st"
    and "table (snd (reservation_partition m p st)) = table st"
  using assms
  by (auto simp: reservation_partition_def Let_def size_at_def reservation_size_def)

lemma partition_populated:
  assumes "reservation_empty (store st p)"
  shows "fst (reservations_partition p st) =
     (\<not> reservation_empty (store (snd (reservations_partition p st)) p))"
proof (cases "find_maximal st")
  case None
  with assms show ?thesis by (simp add: reservations_partition_def)
next
  case (Some m)
  show ?thesis
  proof (cases "m = p")
    case True
    with Some assms show ?thesis by (simp add: reservations_partition_def)
  next
    case False
    have "take ((size_at st m + 1) div 2) (heights (store st m)) \<noteq> [] \<longleftrightarrow>
        heights (store st m) \<noteq> []"
      by (cases "heights (store st m)") (simp_all add: size_at_def reservation_size_def)
    with Some False assms reservation_partition_fills(1,2) [OF False, of st] show ?thesis
      by (simp add: reservations_partition_def reservation_empty_def)
  qed
qed

text \<open>
  Claim C2. For a slot of at most \<open>max_request\<close> pending hashes, \<^verbatim>\<open>reserve\<close> moves the first
  \<open>n = min (size of the queue) (max_request - size of the slot)\<close> entries of the queue to
  the end of the slot, in queue order, touches no other slot, and returns whether the slot
  is non-empty. \<^verbatim>\<open>populate\<close> stops there with \<open>True\<close> when the slot is non-empty, and is
  the result of \<^verbatim>\<open>partition\<close> on the state that \<^verbatim>\<open>reserve\<close> left when the slot is still
  empty. In both cases it returns \<open>True\<close> exactly when the slot ends non-empty.
\<close>

theorem populate_reserve_then_partition:
  assumes "size_at st p \<le> max_request st"
    and "n = min (hash_queue_size (hashes st)) (max_request st - size_at st p)"
    and "st1 = snd (reservations_reserve p st)"
  shows "hashes st1 = drop n (hashes st) \<and>
     heights (store st1 p) = heights (store st p) @ take n (hashes st) \<and>
     (\<forall>q. q \<noteq> p \<longrightarrow> store st1 q = store st q) \<and>
     table st1 = table st \<and>
     fst (reservations_reserve p st) = (\<not> reservation_empty (store st1 p)) \<and>
     (\<not> reservation_empty (store st1 p) \<longrightarrow> reservations_populate p st = (True, st1)) \<and>
     (reservation_empty (store st1 p) \<longrightarrow>
        reservations_populate p st = reservations_partition p st1) \<and>
     fst (reservations_populate p st) =
       (\<not> reservation_empty (store (snd (reservations_populate p st)) p))"
proof -
  note r = reserve_result [OF assms(1)]
  have h: "hashes st1 = drop n (hashes st)"
    and s: "heights (store st1 p) = heights (store st p) @ take n (hashes st)"
    and f: "\<forall>q. q \<noteq> p \<longrightarrow> store st1 q = store st q"
    and t: "table st1 = table st"
    and b: "fst (reservations_reserve p st) = (\<not> reservation_empty (store st1 p))"
    unfolding assms(2,3) r by (simp_all add: hash_queue_size_def reservation_empty_def)
  have split: "reservations_reserve p st = (fst (reservations_reserve p st), st1)"
    by (simp add: assms(3))
  have full: "\<not> reservation_empty (store st1 p) \<longrightarrow> reservations_populate p st = (True, st1)"
    using b by (subst reservations_populate_def, subst split) simp
  have none: "reservation_empty (store st1 p) \<longrightarrow>
      reservations_populate p st = reservations_partition p st1"
    using b by (subst reservations_populate_def, subst split) simp
  have "fst (reservations_populate p st) =
      (\<not> reservation_empty (store (snd (reservations_populate p st)) p))"
  proof (cases "reservation_empty (store st1 p)")
    case True
    with none partition_populated [OF True] show ?thesis by simp
  next
    case False
    with full show ?thesis by simp
  qed
  with h s f t b full none show ?thesis by blast
qed

text \<open>
  Instances for C2: with five queued entries the empty slot 1 takes all five and
  \<^verbatim>\<open>partition\<close> is not reached; with an empty queue the slot stays empty after
  \<^verbatim>\<open>reserve\<close> and \<^verbatim>\<open>populate\<close> is \<^verbatim>\<open>partition\<close>.
\<close>

theorem populate_reserve_then_partition_witness:
  "size_at (fixture_table (fixture_queue 5)) 1 \<le> max_request (fixture_table (fixture_queue 5)) \<and>
   hashes (snd (reservations_reserve 1 (fixture_table (fixture_queue 5)))) = [] \<and>
   heights (store (snd (reservations_reserve 1 (fixture_table (fixture_queue 5)))) 1) =
     fixture_queue 5 \<and>
   reservations_populate 1 (fixture_table (fixture_queue 5)) =
     (True, snd (reservations_reserve 1 (fixture_table (fixture_queue 5)))) \<and>
   reservation_empty (store (snd (reservations_reserve 1 (fixture_table []))) 1) \<and>
   reservations_populate 1 (fixture_table []) =
     reservations_partition 1 (snd (reservations_reserve 1 (fixture_table []))) \<and>
   fst (reservations_populate 1 (fixture_table [])) =
     (\<not> reservation_empty (store (snd (reservations_populate 1 (fixture_table []))) 1))"
proof -
  let ?full = "fixture_table (fixture_queue 5)"
  let ?dry = "fixture_table []"
  have fits: "size_at ?full 1 \<le> max_request ?full" "size_at ?dry 1 \<le> max_request ?dry"
    by (simp_all add: fixture_table_fields)
  have five: "5 = min (hash_queue_size (hashes ?full)) (max_request ?full - size_at ?full 1)"
    by (simp add: fixture_table_fields hash_queue_size_def length_fixture_queue)
  have zero: "0 = min (hash_queue_size (hashes ?dry)) (max_request ?dry - size_at ?dry 1)"
    by (simp add: fixture_table_fields hash_queue_size_def)
  note full = populate_reserve_then_partition [OF fits(1) five refl]
  note dry = populate_reserve_then_partition [OF fits(2) zero refl]
  from full have a: "hashes (snd (reservations_reserve 1 ?full)) = []"
    and b: "heights (store (snd (reservations_reserve 1 ?full)) 1) = fixture_queue 5"
    by (simp_all add: fixture_table_fields length_fixture_queue)
  from b have "\<not> reservation_empty (store (snd (reservations_reserve 1 ?full)) 1)"
    by (simp add: reservation_empty_def fixture_queue_5)
  with full have c: "reservations_populate 1 ?full = (True, snd (reservations_reserve 1 ?full))"
    by blast
  from dry have "heights (store (snd (reservations_reserve 1 ?dry)) 1) = []"
    by (simp add: fixture_table_fields)
  then have d: "reservation_empty (store (snd (reservations_reserve 1 ?dry)) 1)"
    by (simp add: reservation_empty_def)
  with dry have e: "reservations_populate 1 ?dry =
      reservations_partition 1 (snd (reservations_reserve 1 ?dry))" by blast
  from dry have f: "fst (reservations_populate 1 ?dry) =
      (\<not> reservation_empty (store (snd (reservations_populate 1 ?dry)) 1))" by blast
  from fits(1) a b c d e f show ?thesis by blast
qed

subsection \<open>partition takes from the maximal slot\<close>

text \<open>
  Claim C3, as the code has it. The table is ordered by slot id. On an empty table
  \<^verbatim>\<open>partition(s)\<close> returns \<open>False\<close> and changes nothing. Otherwise the donor \<open>m\<close> is a slot
  of the table of the greatest size, the one of the lowest slot id among those, and
  \<^verbatim>\<open>partition(s)\<close> is \<^verbatim>\<open>m->partition(s)\<close> whenever \<open>m\<close> is not \<open>s\<close>, whatever the size of
  \<open>m\<close>, and \<open>False\<close> without a change when \<open>m\<close> is \<open>s\<close>. When \<open>m\<close> is not \<open>s\<close> and holds a
  single hash, that hash moves to \<open>s\<close> and the result is \<open>True\<close>.
\<close>

theorem partition_takes_from_maximal:
  assumes "sorted_wrt (<) (map (\<lambda>q. slot (store st q)) (table st))"
  shows "(table st = [] \<longrightarrow> reservations_partition s st = (False, st)) \<and>
    (table st \<noteq> [] \<longrightarrow>
      (\<exists>m. find_maximal st = Some m \<and> m \<in> set (table st) \<and>
        (\<forall>q\<in>set (table st). size_at st q \<le> size_at st m \<and>
           (size_at st q = size_at st m \<longrightarrow> slot (store st m) \<le> slot (store st q))) \<and>
        reservations_partition s st =
          (if m \<noteq> s then reservation_partition m s st else (False, st)) \<and>
        (m \<noteq> s \<and> size_at st m = 1 \<longrightarrow>
           fst (reservations_partition s st) \<and>
           heights (store (snd (reservations_partition s st)) s) =
             heights (store st s) @ heights (store st m) \<and>
           heights (store (snd (reservations_partition s st)) m) = [])))"
proof (intro conjI impI)
  assume "table st = []"
  then show "reservations_partition s st = (False, st)"
    by (simp add: reservations_partition_def find_maximal_empty)
next
  assume "table st \<noteq> []"
  from find_maximal_split [OF this] obtain m ys zs where
    m: "find_maximal st = Some m" and t: "table st = ys @ m # zs"
    and before: "\<forall>y\<in>set ys. size_at st y < size_at st m"
    and after: "\<forall>z\<in>set zs. size_at st z \<le> size_at st m" by blast
  from assms t have later: "\<forall>z\<in>set zs. slot (store st m) < slot (store st z)"
    by (simp add: sorted_wrt_append)
  have best: "\<forall>q\<in>set (table st). size_at st q \<le> size_at st m \<and>
      (size_at st q = size_at st m \<longrightarrow> slot (store st m) \<le> slot (store st q))"
    using t before after later by (auto simp: less_imp_le)
  have call: "reservations_partition s st =
      (if m \<noteq> s then reservation_partition m s st else (False, st))"
    by (simp add: reservations_partition_def m)
  have single: "m \<noteq> s \<and> size_at st m = 1 \<longrightarrow>
      fst (reservations_partition s st) \<and>
      heights (store (snd (reservations_partition s st)) s) =
        heights (store st s) @ heights (store st m) \<and>
      heights (store (snd (reservations_partition s st)) m) = []"
  proof
    assume a: "m \<noteq> s \<and> size_at st m = 1"
    then have ne: "m \<noteq> s" and one: "length (heights (store st m)) = 1"
      by (simp_all add: size_at_def reservation_size_def)
    from one have "heights (store st m) \<noteq> []" by auto
    with a one reservation_partition_fills(1,2,3) [OF ne, of st]
    show "fst (reservations_partition s st) \<and>
      heights (store (snd (reservations_partition s st)) s) =
        heights (store st s) @ heights (store st m) \<and>
      heights (store (snd (reservations_partition s st)) m) = []"
      by (simp add: call)
  qed
  from m t best call single
  show "\<exists>m. find_maximal st = Some m \<and> m \<in> set (table st) \<and>
        (\<forall>q\<in>set (table st). size_at st q \<le> size_at st m \<and>
           (size_at st q = size_at st m \<longrightarrow> slot (store st m) \<le> slot (store st q))) \<and>
        reservations_partition s st =
          (if m \<noteq> s then reservation_partition m s st else (False, st)) \<and>
        (m \<noteq> s \<and> size_at st m = 1 \<longrightarrow>
           fst (reservations_partition s st) \<and>
           heights (store (snd (reservations_partition s st)) s) =
             heights (store st s) @ heights (store st m) \<and>
           heights (store (snd (reservations_partition s st)) m) = [])"
    by (intro exI [of _ m]) simp
qed

text \<open>
  Instances for C3: in the table of two slots the donor is slot 0, whose single hash
  moves to slot 1; slot 0 itself gets nothing; on the empty table nothing happens; of the
  slots of sizes 1, 2 and 2 the donor is slot 1, the lower of the two largest.
\<close>

theorem partition_takes_from_maximal_witness:
  "sorted_wrt (<) (map (\<lambda>q. slot (store (fixture_table []) q)) (table (fixture_table []))) \<and>
   table (fixture_table []) \<noteq> [] \<and>
   find_maximal (fixture_table []) = Some 0 \<and>
   0 \<noteq> (1 :: ptr) \<and> size_at (fixture_table []) 0 = 1 \<and>
   reservations_partition 1 (fixture_table []) = reservation_partition 0 1 (fixture_table []) \<and>
   fst (reservations_partition 1 (fixture_table [])) \<and>
   heights (store (snd (reservations_partition 1 (fixture_table []))) 1) = [(7, 7)] \<and>
   reservations_partition 0 (fixture_table []) = (False, fixture_table []) \<and>
   table (fixture_empty []) = [] \<and>
   reservations_partition 1 (fixture_empty []) = (False, fixture_empty []) \<and>
   sorted_wrt (<) (map (\<lambda>q. slot (store fixture_tie q)) (table fixture_tie)) \<and>
   find_maximal fixture_tie = Some 1 \<and>
   2 \<in> set (table fixture_tie) \<and>
   size_at fixture_tie 2 = size_at fixture_tie 1 \<and>
   slot (store fixture_tie 1) \<le> slot (store fixture_tie 2) \<and>
   size_at fixture_tie 0 \<le> size_at fixture_tie 1"
proof -
  let ?st = "fixture_table []"
  have sorted: "sorted_wrt (<) (map (\<lambda>q. slot (store ?st q)) (table ?st))"
    by (simp add: fixture_table_fields)
  have none: "sorted_wrt (<) (map (\<lambda>q. slot (store (fixture_empty []) q)) (table (fixture_empty [])))"
    by (simp add: fixture_empty_fields)
  have tie: "sorted_wrt (<) (map (\<lambda>q. slot (store fixture_tie q)) (table fixture_tie))"
    by (simp add: fixture_tie_fields)
  have rows: "table ?st \<noteq> []" "table fixture_tie \<noteq> []"
    by (simp_all add: fixture_table_fields fixture_tie_fields)
  from partition_takes_from_maximal [OF sorted, of 1] rows(1) obtain m where
    m: "find_maximal ?st = Some m"
    and call: "reservations_partition 1 ?st =
      (if m \<noteq> 1 then reservation_partition m 1 ?st else (False, ?st))"
    and single: "m \<noteq> 1 \<and> size_at ?st m = 1 \<longrightarrow>
      fst (reservations_partition 1 ?st) \<and>
      heights (store (snd (reservations_partition 1 ?st)) 1) =
        heights (store ?st 1) @ heights (store ?st m) \<and>
      heights (store (snd (reservations_partition 1 ?st)) m) = []"
    by blast
  from m have m0: "m = 0" by (simp add: find_maximal_fixture)
  from partition_takes_from_maximal [OF sorted, of 0] rows(1) obtain m' where
    m': "find_maximal ?st = Some m'"
    and own: "reservations_partition 0 ?st =
      (if m' \<noteq> 0 then reservation_partition m' 0 ?st else (False, ?st))"
    by blast
  from m' have "m' = 0" by (simp add: find_maximal_fixture)
  with own have self: "reservations_partition 0 ?st = (False, ?st)" by simp
  from partition_takes_from_maximal [OF none, of 1]
  have empty: "reservations_partition 1 (fixture_empty []) = (False, fixture_empty [])"
    by (simp add: fixture_empty_fields)
  from partition_takes_from_maximal [OF tie, of 0] rows(2) obtain n where
    n: "find_maximal fixture_tie = Some n"
    and best: "\<forall>q\<in>set (table fixture_tie). size_at fixture_tie q \<le> size_at fixture_tie n \<and>
      (size_at fixture_tie q = size_at fixture_tie n \<longrightarrow>
         slot (store fixture_tie n) \<le> slot (store fixture_tie q))"
    by blast
  from n have n1: "n = 1" by (simp add: find_maximal_tie)
  have last: "2 \<in> set (table fixture_tie)" and first: "0 \<in> set (table fixture_tie)"
    and same: "size_at fixture_tie 2 = size_at fixture_tie 1"
    by (simp_all add: fixture_tie_fields)
  from best [rule_format, OF last] same
  have lowest: "slot (store fixture_tie 1) \<le> slot (store fixture_tie 2)"
    unfolding n1 by blast
  from best [rule_format, OF first]
  have least: "size_at fixture_tie 0 \<le> size_at fixture_tie 1"
    unfolding n1 by blast
  from sorted rows m call single self empty
  have "sorted_wrt (<) (map (\<lambda>q. slot (store ?st q)) (table ?st)) \<and>
   table ?st \<noteq> [] \<and> find_maximal ?st = Some 0 \<and>
   0 \<noteq> (1 :: ptr) \<and> size_at ?st 0 = 1 \<and>
   reservations_partition 1 ?st = reservation_partition 0 1 ?st \<and>
   fst (reservations_partition 1 ?st) \<and>
   heights (store (snd (reservations_partition 1 ?st)) 1) = [(7, 7)] \<and>
   reservations_partition 0 ?st = (False, ?st) \<and>
   table (fixture_empty []) = [] \<and>
   reservations_partition 1 (fixture_empty []) = (False, fixture_empty [])"
    by (simp add: m0 fixture_table_fields fixture_empty_fields)
  with tie n last same lowest least show ?thesis unfolding n1 by blast
qed

text \<open>
  Where C3 fails as stated: the maximal slot holds a single hash and is not the
  requesting slot, yet \<^verbatim>\<open>partition\<close> returns \<open>True\<close> and the hash has moved.
\<close>

theorem partition_singleton_counterexample:
  "find_maximal (fixture_table []) = Some 0 \<and>
   size_at (fixture_table []) 0 = 1 \<and>
   reservations_partition 1 (fixture_table []) = reservation_partition 0 1 (fixture_table []) \<and>
   fst (reservations_partition 1 (fixture_table [])) \<and>
   heights (store (fixture_table []) 1) = [] \<and>
   heights (store (snd (reservations_partition 1 (fixture_table []))) 1) = [(7, 7)] \<and>
   heights (store (snd (reservations_partition 1 (fixture_table []))) 0) = []"
  by (simp add: reservations_partition_def find_maximal_fixture reservation_partition_def
      Let_def fixture_table_fields size_at_def [symmetric])

subsection \<open>remove\<close>

lemma std_find_le: "std_find xs v \<le> length xs"
  by (induction xs) auto

lemma std_find_end: "std_find xs v = length xs \<longleftrightarrow> v \<notin> set xs"
  using std_find_le [of _ v] by (induction xs) (auto simp: Suc_le_eq)

lemma erase_std_find: "erase xs (std_find xs v) = remove1 v xs"
  by (induction xs) auto

lemma remove1_keeps_others: "filter (\<lambda>p. p \<noteq> v) (remove1 v xs) = filter (\<lambda>p. p \<noteq> v) xs"
  by (induction xs) auto

lemma count_list_remove1: "v \<in> set xs \<Longrightarrow> Suc (count_list (remove1 v xs) v) = count_list xs v"
  by (induction xs) auto

lemma length_remove1_Suc: "v \<in> set xs \<Longrightarrow> Suc (length (remove1 v xs)) = length xs"
  by (induction xs) auto

lemma remove_absent: "row \<notin> set (table st) \<Longrightarrow> reservations_remove row st = st"
  by (simp add: reservations_remove_def Let_def std_find_end)

lemma remove_present:
  "row \<in> set (table st) \<Longrightarrow> reservations_remove row st = st\<lparr>table := remove1 row (table st)\<rparr>"
  by (simp add: reservations_remove_def Let_def std_find_end erase_std_find)

lemma table_remove: "table (reservations_remove row st) = remove1 row (table st)"
  by (cases "row \<in> set (table st)") (simp_all add: remove_present remove_absent remove1_idem)

lemma remove_sorted:
  assumes "sorted_wrt (<) (map (\<lambda>q. slot (store st q)) (table st))"
  shows "sorted_wrt (<) (map (\<lambda>q. slot (store (reservations_remove row st) q))
           (table (reservations_remove row st)))"
proof (cases "row \<in> set (table st)")
  case False
  with assms show ?thesis by (simp add: remove_absent)
next
  case True
  have "sorted_wrt (<) (map f (remove1 row xs))" if "sorted_wrt (<) (map f xs)"
    for f :: "ptr \<Rightarrow> nat" and xs
    using that by (induction xs) (auto dest: notin_set_remove1)
  with assms show ?thesis by (simp add: remove_present [OF True])
qed

text \<open>
  Claim C10. \<^verbatim>\<open>reservations::remove(row)\<close> leaves the state as it is when the pointer is
  not in the table. When it is, the result is the state with the first occurrence of
  the pointer taken out of the table: the table is one shorter, holds the pointer once
  less, holds the other pointers as before and in the same order, and, its pointers
  being distinct, no longer holds the pointer at all. The objects and the queue are
  untouched.
\<close>

theorem remove_frame:
  "(row \<notin> set (table st) \<longrightarrow> reservations_remove row st = st) \<and>
   (row \<in> set (table st) \<longrightarrow>
      reservations_remove row st = st\<lparr>table := remove1 row (table st)\<rparr> \<and>
      Suc (length (table (reservations_remove row st))) = length (table st) \<and>
      Suc (count_list (table (reservations_remove row st)) row) = count_list (table st) row \<and>
      filter (\<lambda>p. p \<noteq> row) (table (reservations_remove row st)) =
        filter (\<lambda>p. p \<noteq> row) (table st) \<and>
      (distinct (table st) \<longrightarrow>
         set (table (reservations_remove row st)) = set (table st) - {row}))"
proof (intro conjI impI)
  assume "row \<notin> set (table st)"
  then show "reservations_remove row st = st" by (rule remove_absent)
next
  assume present: "row \<in> set (table st)"
  then show "reservations_remove row st = st\<lparr>table := remove1 row (table st)\<rparr>"
    by (rule remove_present)
  from present show "Suc (length (table (reservations_remove row st))) = length (table st)"
    by (simp only: table_remove length_remove1_Suc)
  from present
  show "Suc (count_list (table (reservations_remove row st)) row) = count_list (table st) row"
    by (simp only: table_remove count_list_remove1)
  from present
  show "filter (\<lambda>p. p \<noteq> row) (table (reservations_remove row st)) =
      filter (\<lambda>p. p \<noteq> row) (table st)"
    by (simp only: table_remove remove1_keeps_others)
  assume "distinct (table st)"
  with present show "set (table (reservations_remove row st)) = set (table st) - {row}"
    by (simp only: table_remove set_remove1_eq)
qed

text \<open>
  Instances for C10: address 9 is not in the table of two slots, address 0 is.
\<close>

theorem remove_frame_witness:
  "9 \<notin> set (table (fixture_table [])) \<and>
   reservations_remove 9 (fixture_table []) = fixture_table [] \<and>
   0 \<in> set (table (fixture_table [])) \<and>
   table (reservations_remove 0 (fixture_table [])) = [1] \<and>
   store (reservations_remove 0 (fixture_table [])) = store (fixture_table [])"
  using remove_frame [of 9 "fixture_table []"] remove_frame [of 0 "fixture_table []"]
  by (simp add: fixture_table_def)

subsection \<open>rates\<close>

lemma remove_if_filter: "remove_if pred xs = filter (\<lambda>x. \<not> pred x) xs"
  by (induction xs) auto

lemma accumulate_foldl: "accumulate xs init f = foldl f init xs"
  by (induction xs arbitrary: init) auto

text \<open>
  Claim C8. In the result of \<^verbatim>\<open>reservations::rates()\<close> the number of active rows is the
  number of slots of the table that are not idle, hence at most the size of the table.
  The mean is the guarded quotient of the sum of the \<^verbatim>\<open>normal()\<close> rates of those slots,
  added up in table order from zero, by that number: the quotient itself when the number
  is positive. When the number is zero the mean is zero and the standard deviation is the
  square root of zero, which is zero whenever the square root maps zero to zero.
\<close>

theorem rates_active:
  "active_count (reservations_rates fl st) =
     length (filter (\<lambda>row. \<not> reservation_idle (store st row)) (table st)) \<and>
   active_count (reservations_rates fl st) \<le> length (table st) \<and>
   arithmetic_mean (reservations_rates fl st) =
     reservation_divide fl
       (foldl (fadd fl) (fzero fl)
          (map (\<lambda>row. normal fl (rate (store st row)))
             (filter (\<lambda>row. \<not> reservation_idle (store st row)) (table st))))
       (active_count (reservations_rates fl st)) \<and>
   (0 < active_count (reservations_rates fl st) \<longrightarrow>
      arithmetic_mean (reservations_rates fl st) =
        fdiv fl
          (foldl (fadd fl) (fzero fl)
             (map (\<lambda>row. normal fl (rate (store st row)))
                (filter (\<lambda>row. \<not> reservation_idle (store st row)) (table st))))
          (of_size fl (active_count (reservations_rates fl st)))) \<and>
   (active_count (reservations_rates fl st) = 0 \<longrightarrow>
      arithmetic_mean (reservations_rates fl st) = fzero fl \<and>
      standard_deviation (reservations_rates fl st) = fsqrt fl (fzero fl) \<and>
      (fsqrt fl (fzero fl) = fzero fl \<longrightarrow>
         standard_deviation (reservations_rates fl st) = fzero fl))"
  by (simp add: reservations_rates_def Let_def remove_if_filter accumulate_foldl
      reservation_divide_def)

text \<open>
  Instances for C8, in exact arithmetic: every slot idle gives zero rows, mean and
  deviation; two active slots of rates 2 and 4 give the mean 3.
\<close>

theorem rates_active_witness:
  "active_count (reservations_rates fixture_real (fixture_table [])) = 0 \<and>
   fsqrt fixture_real (fzero fixture_real) = fzero fixture_real \<and>
   arithmetic_mean (reservations_rates fixture_real (fixture_table [])) = 0 \<and>
   standard_deviation (reservations_rates fixture_real (fixture_table [])) = 0 \<and>
   0 < active_count (reservations_rates fixture_real (fixture_busy [])) \<and>
   arithmetic_mean (reservations_rates fixture_real (fixture_busy [])) = 3"
proof -
  have idle: "filter (\<lambda>row. \<not> reservation_idle (store (fixture_table []) row))
      (table (fixture_table [])) = []"
    by (simp add: fixture_table_def reservation_idle_def reservation_new_def)
  have busy: "filter (\<lambda>row. \<not> reservation_idle (store (fixture_busy []) row))
      (table (fixture_busy [])) = [0, 2]"
    by (simp add: fixture_busy_def reservation_idle_def reservation_new_def)
  have zero: "fzero fixture_real = 0" "fsqrt fixture_real 0 = 0"
    by (simp_all add: fixture_real_def)
  have mean: "fdiv fixture_real
      (fadd fixture_real
         (fadd fixture_real (fzero fixture_real)
            (normal fixture_real (rate (store (fixture_busy []) 0))))
         (normal fixture_real (rate (store (fixture_busy []) 2))))
      (of_size fixture_real 2) = 3"
    by (simp add: fixture_real_def fixture_busy_def reservation_new_def)
  note idle_case = rates_active [of fixture_real "fixture_table []", unfolded idle]
  note busy_case = rates_active [of fixture_real "fixture_busy []", unfolded busy]
  from idle_case have none: "active_count (reservations_rates fixture_real (fixture_table [])) = 0"
    by simp
  from idle_case none
  have "arithmetic_mean (reservations_rates fixture_real (fixture_table [])) = fzero fixture_real"
    and "standard_deviation (reservations_rates fixture_real (fixture_table [])) =
      fzero fixture_real"
    by (simp_all add: zero)
  moreover from busy_case
  have two: "active_count (reservations_rates fixture_real (fixture_busy [])) = 2"
    by simp
  moreover from busy_case two
  have "arithmetic_mean (reservations_rates fixture_real (fixture_busy [])) = 3"
    by (simp add: mean)
  ultimately show ?thesis using none by (simp add: zero)
qed

section \<open>Properties of the protocol\<close>

lemma trace_emit: "trace (emit e st) = trace st @ [e]"
  by (simp add: emit_def)

lemma trace_stop: "trace (stop ec st) = trace st @ [Stop ec]"
  by (simp add: stop_def emit_def)

lemma halted_stop: "halted (stop ec st)"
  by (simp add: stop_def emit_def)

lemma send_get_blocks_trace:
  "trace (send_get_blocks ops st) =
     trace st @
       (if halted st \<or> is_candidates_stale ops (chain st) then []
        else if inventories ops (fst (request ops (reservation st))) = [] then [Request]
        else [Request,
              Send (if require_witness st then to_witness ops (fst (request ops (reservation st)))
                    else fst (request ops (reservation st)))])"
  by (simp add: send_get_blocks_def emit_def Let_def split: prod.splits)

lemma send_get_blocks_frame:
  "chain (send_get_blocks ops st) = chain st" "halted (send_get_blocks ops st) = halted st"
  "require_witness (send_get_blocks ops st) = require_witness st"
  by (simp_all add: send_get_blocks_def emit_def Let_def split: prod.splits)

lemma handlers_send_gated:
  assumes "Send m \<in> set (drop (length (trace st)) (trace st'))"
    and "st' = start ops st \<or> st' = snd (handle_receive_block ops ec b st) \<or>
         st' = snd (handle_reindexed ops ec st) \<or> st' = handle_event ops ec st"
  shows "\<not> halted st \<and> \<not> is_candidates_stale ops (chain st') \<and>
    (\<exists>req. inventories ops req \<noteq> [] \<and>
       m = (if require_witness st then to_witness ops req else req))"
  using assms
  by (auto simp: start_def handle_receive_block_def handle_reindexed_def handle_event_def
      send_get_blocks_trace send_get_blocks_frame trace_emit trace_stop emit_def stop_def
      report_def Let_def split: if_splits prod.splits option.splits)

text \<open>
  Claim C4. \<^verbatim>\<open>send_get_blocks\<close> only appends to the trace, and whenever it appends the
  sending of a message, then the protocol is not stopped, the candidate chain is not stale,
  the inventories of the reservation's request are not empty, and the message is that
  request, converted to the witness types when witness data is required. The same holds
  of every entry point of the protocol (\<^verbatim>\<open>start\<close> and the three handlers): a message
  that one of them sends is sent by a protocol that was not stopped, on a candidate chain
  that is not stale, and is a request with inventories, converted when witness data is
  required.
\<close>

theorem send_get_blocks_gate:
  "take (length (trace st)) (trace (send_get_blocks ops st)) = trace st \<and>
   (\<forall>m. Send m \<in> set (drop (length (trace st)) (trace (send_get_blocks ops st))) \<longrightarrow>
      \<not> halted st \<and> \<not> is_candidates_stale ops (chain st) \<and>
      inventories ops (fst (request ops (reservation st))) \<noteq> [] \<and>
      (require_witness st \<longrightarrow> m = to_witness ops (fst (request ops (reservation st)))) \<and>
      (\<not> require_witness st \<longrightarrow> m = fst (request ops (reservation st)))) \<and>
   (\<forall>m st'.
      (st' = start ops st \<or> st' = snd (handle_receive_block ops ec b st) \<or>
       st' = snd (handle_reindexed ops ec st) \<or> st' = handle_event ops ec st) \<and>
      Send m \<in> set (drop (length (trace st)) (trace st')) \<longrightarrow>
        \<not> halted st \<and> \<not> is_candidates_stale ops (chain st') \<and>
        (\<exists>req. inventories ops req \<noteq> [] \<and>
           m = (if require_witness st then to_witness ops req else req)))"
proof (intro conjI allI impI)
  show "take (length (trace st)) (trace (send_get_blocks ops st)) = trace st"
    by (simp add: send_get_blocks_trace)
next
  fix m
  assume "Send m \<in> set (drop (length (trace st)) (trace (send_get_blocks ops st)))"
  then show "\<not> halted st" "\<not> is_candidates_stale ops (chain st)"
    "inventories ops (fst (request ops (reservation st))) \<noteq> []"
    by (simp_all add: send_get_blocks_trace split: if_splits)
next
  fix m
  assume "Send m \<in> set (drop (length (trace st)) (trace (send_get_blocks ops st)))"
    and "require_witness st"
  then show "m = to_witness ops (fst (request ops (reservation st)))"
    by (simp add: send_get_blocks_trace split: if_splits)
next
  fix m
  assume "Send m \<in> set (drop (length (trace st)) (trace (send_get_blocks ops st)))"
    and "\<not> require_witness st"
  then show "m = fst (request ops (reservation st))"
    by (simp add: send_get_blocks_trace split: if_splits)
next
  fix m st'
  assume a: "(st' = start ops st \<or> st' = snd (handle_receive_block ops ec b st) \<or>
       st' = snd (handle_reindexed ops ec st) \<or> st' = handle_event ops ec st) \<and>
      Send m \<in> set (drop (length (trace st)) (trace st'))"
  then have "\<not> halted st \<and> \<not> is_candidates_stale ops (chain st') \<and>
    (\<exists>req. inventories ops req \<noteq> [] \<and>
       m = (if require_witness st then to_witness ops req else req))"
    by (intro handlers_send_gated [of m st st' ops ec b]) simp_all
  then show "\<not> halted st" "\<not> is_candidates_stale ops (chain st')"
    "\<exists>req. inventories ops req \<noteq> [] \<and>
       m = (if require_witness st then to_witness ops req else req)"
    by blast+
qed

text \<open>
  Instances for C4: the running channel with two reserved hashes sends them with the
  witness types, and as they are when witness data is not required; after the block of
  the first hash it requests the second.
\<close>

theorem send_get_blocks_gate_witness:
  "Send [(True, 7), (True, 8)] \<in> set (drop (length (trace fixture_protocol))
      (trace (send_get_blocks fixture_ops fixture_protocol))) \<and>
   \<not> halted fixture_protocol \<and>
   \<not> is_candidates_stale fixture_ops (chain fixture_protocol) \<and>
   inventories fixture_ops (fst (request fixture_ops (reservation fixture_protocol))) \<noteq> [] \<and>
   require_witness fixture_protocol \<and>
   [(True, 7), (True, 8)] =
     to_witness fixture_ops (fst (request fixture_ops (reservation fixture_protocol))) \<and>
   Send [(False, 7), (False, 8)] \<in>
     set (drop (length (trace (fixture_protocol\<lparr>require_witness := False\<rparr>)))
       (trace (send_get_blocks fixture_ops (fixture_protocol\<lparr>require_witness := False\<rparr>)))) \<and>
   \<not> require_witness (fixture_protocol\<lparr>require_witness := False\<rparr>) \<and>
   [(False, 7), (False, 8)] =
     fst (request fixture_ops (reservation (fixture_protocol\<lparr>require_witness := False\<rparr>))) \<and>
   Send [(True, 8)] \<in> set (drop (length (trace fixture_protocol))
     (trace (snd (handle_receive_block fixture_ops success 7 fixture_protocol)))) \<and>
   \<not> is_candidates_stale fixture_ops
     (chain (snd (handle_receive_block fixture_ops success 7 fixture_protocol)))"
proof -
  let ?plain = "fixture_protocol\<lparr>require_witness := False\<rparr>"
  let ?next = "snd (handle_receive_block fixture_ops success 7 fixture_protocol)"
  have sent: "Send [(True, 7), (True, 8)] \<in> set (drop (length (trace fixture_protocol))
      (trace (send_get_blocks fixture_ops fixture_protocol)))"
    and plain: "Send [(False, 7), (False, 8)] \<in> set (drop (length (trace ?plain))
      (trace (send_get_blocks fixture_ops ?plain)))"
    by (simp_all add: send_get_blocks_def emit_def Let_def fixture_ops_def fixture_protocol_def)
  have after: "Send [(True, 8)] \<in> set (drop (length (trace fixture_protocol)) (trace ?next))"
    by (simp add: handle_receive_block_def stopped_with_def send_get_blocks_def report_def
        emit_def Let_def fixture_ops_def fixture_protocol_def)
  have witness: "require_witness fixture_protocol" and none: "\<not> require_witness ?plain"
    by (simp_all add: fixture_protocol_def)
  note gate = send_get_blocks_gate [of fixture_protocol fixture_ops success 7]
  from gate sent witness
  have "\<not> halted fixture_protocol \<and>
    \<not> is_candidates_stale fixture_ops (chain fixture_protocol) \<and>
    inventories fixture_ops (fst (request fixture_ops (reservation fixture_protocol))) \<noteq> [] \<and>
    [(True, 7), (True, 8)] =
      to_witness fixture_ops (fst (request fixture_ops (reservation fixture_protocol)))"
    by blast
  moreover from send_get_blocks_gate [of ?plain fixture_ops success 7] plain none
  have "[(False, 7), (False, 8)] = fst (request fixture_ops (reservation ?plain))"
    by blast
  moreover from gate after have "\<not> is_candidates_stale fixture_ops (chain ?next)"
    by blast
  ultimately show ?thesis using sent plain witness none after by blast
qed

text \<open>
  Claim C5. A block is received without an error code by a protocol that is not stopped.
  If witness data is required and the peer has none, the channel is stopped with
  \<^verbatim>\<open>channel_stopped\<close> and nothing else happens. If not, and the reservation is stopped,
  the same. If neither, and \<^verbatim>\<open>find_height_and_erase\<close> misses the hash of the block, the
  channel is stopped with \<^verbatim>\<open>channel_stopped\<close> after that one call. In the three cases the
  handler returns \<open>False\<close>, the last event is the stop, and the chain is not asked to
  organize.
\<close>

theorem receive_block_rejections:
  assumes "\<not> stopped_with ops ec st" and "ec = success"
    and "st' = snd (handle_receive_block ops ec b st)"
  shows
   "(require_witness st \<and> \<not> peer_witness st \<longrightarrow>
       handle_receive_block ops ec b st = (False, stop channel_stopped st)) \<and>
    (\<not> (require_witness st \<and> \<not> peer_witness st) \<and> reservation_stopped ops (reservation st) \<longrightarrow>
       handle_receive_block ops ec b st = (False, stop channel_stopped st)) \<and>
    (\<not> (require_witness st \<and> \<not> peer_witness st) \<and> \<not> reservation_stopped ops (reservation st) \<and>
     fst (find_height_and_erase ops (block_hash ops b) (reservation st)) = None \<longrightarrow>
       handle_receive_block ops ec b st =
         (False, stop channel_stopped
            (emit (Find_height_and_erase (block_hash ops b))
               (st\<lparr>reservation :=
                  snd (find_height_and_erase ops (block_hash ops b) (reservation st))\<rparr>)))) \<and>
    ((require_witness st \<and> \<not> peer_witness st) \<or> reservation_stopped ops (reservation st) \<or>
     fst (find_height_and_erase ops (block_hash ops b) (reservation st)) = None \<longrightarrow>
       halted st' \<and> last (trace st') = Stop channel_stopped \<and>
       take (length (trace st)) (trace st') = trace st \<and>
       (\<forall>blk h. Organize blk h \<notin> set (drop (length (trace st)) (trace st'))))"
  using assms(1,2) unfolding assms(3)
  by (auto simp: handle_receive_block_def Let_def trace_stop trace_emit halted_stop
      split: prod.splits option.splits)

text \<open>
  Instances for C5: a peer without witness data, a stopped reservation, and the hash 9
  that was not reserved.
\<close>

theorem receive_block_rejections_witness:
  "\<not> stopped_with fixture_ops success fixture_protocol \<and>
   handle_receive_block fixture_ops success 7 (fixture_protocol\<lparr>peer_witness := False\<rparr>) =
     (False, stop channel_stopped (fixture_protocol\<lparr>peer_witness := False\<rparr>)) \<and>
   handle_receive_block fixture_ops success 7
       (fixture_protocol\<lparr>reservation := (reservation fixture_protocol)\<lparr>partitioned := True\<rparr>\<rparr>) =
     (False, stop channel_stopped
       (fixture_protocol\<lparr>reservation := (reservation fixture_protocol)\<lparr>partitioned := True\<rparr>\<rparr>)) \<and>
   fst (find_height_and_erase fixture_ops (block_hash fixture_ops 9)
     (reservation fixture_protocol)) = None \<and>
   trace (snd (handle_receive_block fixture_ops success 9 fixture_protocol)) =
     [Find_height_and_erase 9, Stop channel_stopped] \<and>
   halted (snd (handle_receive_block fixture_ops success 9 fixture_protocol))"
proof -
  let ?deaf = "fixture_protocol\<lparr>peer_witness := False\<rparr>"
  let ?cut = "fixture_protocol\<lparr>reservation := (reservation fixture_protocol)\<lparr>partitioned := True\<rparr>\<rparr>"
  have run: "\<not> stopped_with fixture_ops success fixture_protocol"
    "\<not> stopped_with fixture_ops success ?deaf" "\<not> stopped_with fixture_ops success ?cut"
    by (simp_all add: stopped_with_def fixture_ops_def fixture_protocol_def)
  have deaf: "require_witness ?deaf \<and> \<not> peer_witness ?deaf"
    by (simp add: fixture_protocol_def)
  have cut: "\<not> (require_witness ?cut \<and> \<not> peer_witness ?cut) \<and>
      reservation_stopped fixture_ops (reservation ?cut)"
    by (simp add: fixture_protocol_def fixture_ops_def)
  have miss: "\<not> (require_witness fixture_protocol \<and> \<not> peer_witness fixture_protocol) \<and>
      \<not> reservation_stopped fixture_ops (reservation fixture_protocol) \<and>
      fst (find_height_and_erase fixture_ops (block_hash fixture_ops 9)
        (reservation fixture_protocol)) = None"
    by (simp add: fixture_protocol_def fixture_ops_def)
  from receive_block_rejections [OF run(2) refl refl, of 7] deaf
  have a: "handle_receive_block fixture_ops success 7 ?deaf = (False, stop channel_stopped ?deaf)"
    by blast
  from receive_block_rejections [OF run(3) refl refl, of 7] cut
  have b: "handle_receive_block fixture_ops success 7 ?cut = (False, stop channel_stopped ?cut)"
    by blast
  from receive_block_rejections [OF run(1) refl refl, of 9] miss
  have c: "handle_receive_block fixture_ops success 9 fixture_protocol =
      (False, stop channel_stopped
         (emit (Find_height_and_erase (block_hash fixture_ops 9))
            (fixture_protocol\<lparr>reservation :=
               snd (find_height_and_erase fixture_ops (block_hash fixture_ops 9)
                 (reservation fixture_protocol))\<rparr>)))"
    by blast
  have d: "trace (snd (handle_receive_block fixture_ops success 9 fixture_protocol)) =
      [Find_height_and_erase 9, Stop channel_stopped]"
    "halted (snd (handle_receive_block fixture_ops success 9 fixture_protocol))"
    unfolding c by (simp_all add: stop_def emit_def fixture_ops_def fixture_protocol_def)
  from run(1) a b miss d show ?thesis by blast
qed

text \<open>
  Claim C6. A block is received without an error code by a protocol that is not stopped
  and passes the witness and reservation checks, \<^verbatim>\<open>find_height_and_erase\<close> finds its
  height, and the chain returns \<open>error_code\<close> from \<^verbatim>\<open>organize\<close>. When the code is an error
  the handler returns \<open>False\<close> and stops the channel with that code right after the call:
  the history is not updated and nothing is requested or sent. When the code is success
  the history is updated, and the handler returns \<open>True\<close> with the state that
  \<^verbatim>\<open>send_get_blocks\<close> makes after the update and the report.
\<close>

theorem receive_block_organize:
  assumes "\<not> stopped_with ops ec st" and "ec = success"
    and "\<not> (require_witness st \<and> \<not> peer_witness st)"
    and "\<not> reservation_stopped ops (reservation st)"
    and "find_height_and_erase ops (block_hash ops b) (reservation st) = (Some height, r)"
    and "organize ops b height (chain st) = (error_code, c)"
    and "st2 = emit (Organize b height)
           (emit (Find_height_and_erase (block_hash ops b)) (st\<lparr>reservation := r\<rparr>)\<lparr>chain := c\<rparr>)"
    and "st3 = emit (Update_history b) (st2\<lparr>reservation := update_history ops b r\<rparr>)"
  shows
   "(error_code \<noteq> success \<longrightarrow>
       handle_receive_block ops ec b st = (False, stop error_code st2) \<and>
       trace (stop error_code st2) =
         trace st @ [Find_height_and_erase (block_hash ops b), Organize b height, Stop error_code] \<and>
       reservation (stop error_code st2) = r) \<and>
    (error_code = success \<longrightarrow>
       handle_receive_block ops ec b st =
         (True, send_get_blocks ops
            (if height mod (if is_blocks_stale ops c then 100 else 1) = 0
             then report b height st3 else st3)) \<and>
       trace st3 =
         trace st @ [Find_height_and_erase (block_hash ops b), Organize b height, Update_history b] \<and>
       reservation st3 = update_history ops b r)"
proof -
  from assms(3) have w: "(require_witness st \<and> \<not> peer_witness st) = False" by simp
  show ?thesis
    using assms(1,2,4-6) unfolding assms(7,8)
    by (simp add: handle_receive_block_def Let_def w trace_stop trace_emit emit_def stop_def)
qed

text \<open>
  Instances for C6: the chain fails with code 3 on the block of height 200, and the chain
  accepts it.
\<close>

theorem receive_block_organize_witness:
  "\<not> stopped_with fixture_ops success fixture_protocol \<and>
   find_height_and_erase fixture_ops (block_hash fixture_ops 7) (reservation fixture_protocol) =
     (Some 200, \<lparr>pending = [(8, 201)], partitioned = False, overdue = False\<rparr>) \<and>
   organize fixture_ops 7 200
       (chain (fixture_protocol\<lparr>chain := (chain fixture_protocol)\<lparr>verdict := other_error 3\<rparr>\<rparr>)) =
     (other_error 3, (chain fixture_protocol)\<lparr>verdict := other_error 3\<rparr>) \<and>
   \<not> fst (handle_receive_block fixture_ops success 7
       (fixture_protocol\<lparr>chain := (chain fixture_protocol)\<lparr>verdict := other_error 3\<rparr>\<rparr>)) \<and>
   trace (snd (handle_receive_block fixture_ops success 7
       (fixture_protocol\<lparr>chain := (chain fixture_protocol)\<lparr>verdict := other_error 3\<rparr>\<rparr>))) =
     [Find_height_and_erase 7, Organize 7 200, Stop (other_error 3)] \<and>
   organize fixture_ops 7 200 (chain fixture_protocol) = (success, chain fixture_protocol) \<and>
   fst (handle_receive_block fixture_ops success 7 fixture_protocol) \<and>
   trace (snd (handle_receive_block fixture_ops success 7 fixture_protocol)) =
     [Find_height_and_erase 7, Organize 7 200, Update_history 7, Report 7 200, Request,
      Send [(True, 8)]]"
proof -
  let ?bad = "fixture_protocol\<lparr>chain := (chain fixture_protocol)\<lparr>verdict := other_error 3\<rparr>\<rparr>"
  let ?r = "\<lparr>pending = [(8, 201)], partitioned = False, overdue = False\<rparr>"
  have run: "\<not> stopped_with fixture_ops success fixture_protocol"
    "\<not> stopped_with fixture_ops success ?bad"
    by (simp_all add: stopped_with_def fixture_ops_def fixture_protocol_def)
  have wit: "\<not> (require_witness fixture_protocol \<and> \<not> peer_witness fixture_protocol)"
    "\<not> (require_witness ?bad \<and> \<not> peer_witness ?bad)"
    by (simp_all add: fixture_protocol_def)
  have live: "\<not> reservation_stopped fixture_ops (reservation fixture_protocol)"
    "\<not> reservation_stopped fixture_ops (reservation ?bad)"
    by (simp_all add: fixture_protocol_def fixture_ops_def)
  have found: "find_height_and_erase fixture_ops (block_hash fixture_ops 7)
      (reservation fixture_protocol) = (Some 200, ?r)"
    "find_height_and_erase fixture_ops (block_hash fixture_ops 7) (reservation ?bad) =
      (Some 200, ?r)"
    by (simp_all add: fixture_protocol_def fixture_ops_def)
  have good: "organize fixture_ops 7 200 (chain fixture_protocol) =
      (success, chain fixture_protocol)"
    and bad: "organize fixture_ops 7 200 (chain ?bad) =
      (other_error 3, (chain fixture_protocol)\<lparr>verdict := other_error 3\<rparr>)"
    by (simp_all add: fixture_protocol_def fixture_ops_def)
  note failing = receive_block_organize [OF run(2) refl wit(2) live(2) found(2) bad refl refl]
  note passing = receive_block_organize [OF run(1) refl wit(1) live(1) found(1) good refl refl]
  from failing have a: "\<not> fst (handle_receive_block fixture_ops success 7 ?bad)"
    and b: "trace (snd (handle_receive_block fixture_ops success 7 ?bad)) =
      [Find_height_and_erase 7, Organize 7 200, Stop (other_error 3)]"
    by (simp_all add: fixture_protocol_def fixture_ops_def)
  from passing have c: "fst (handle_receive_block fixture_ops success 7 fixture_protocol)"
    by simp
  from passing have d: "trace (snd (handle_receive_block fixture_ops success 7 fixture_protocol)) =
      [Find_height_and_erase 7, Organize 7 200, Update_history 7, Report 7 200, Request,
       Send [(True, 8)]]"
    by (simp add: send_get_blocks_def report_def emit_def Let_def fixture_protocol_def
        fixture_ops_def)
  from run(1) found(1) bad a b good c d show ?thesis by blast
qed

text \<open>
  Claim C7, as the code has it. The handler first asks \<^verbatim>\<open>stopped(ec)\<close>, which depends on
  the error code as well as on the channel. When it holds, the handler stops the
  reservation and unsubscribes from the chain, and does not stop the channel: the trace
  gains these two calls and no stop. When it does not hold: with \<^verbatim>\<open>channel_timeout\<close> and
  a reservation that has not expired nothing changes; with any other error code the
  channel is stopped with that code; with no error or with \<^verbatim>\<open>channel_timeout\<close> the
  channel is stopped, with the code of the event, when the reservation has expired, and
  left alone when it has not. Stopping appends the stop to the trace and marks the
  protocol stopped.
\<close>

theorem handle_event_timeout:
  "(stopped_with ops ec st \<longrightarrow>
      handle_event ops ec st =
        emit Unsubscribe
          (emit Reservation_stop (st\<lparr>reservation := reservation_stop ops (reservation st)\<rparr>)
             \<lparr>chain := unsubscribe ops (chain st)\<rparr>) \<and>
      trace (handle_event ops ec st) = trace st @ [Reservation_stop, Unsubscribe] \<and>
      halted (handle_event ops ec st) = halted st) \<and>
   (\<not> stopped_with ops ec st \<longrightarrow>
      (ec = channel_timeout \<and> \<not> expired ops (reservation st) \<longrightarrow>
         handle_event ops ec st = st) \<and>
      (ec \<noteq> success \<and> ec \<noteq> channel_timeout \<longrightarrow> handle_event ops ec st = stop ec st) \<and>
      (ec = success \<or> ec = channel_timeout \<longrightarrow>
         handle_event ops ec st = (if expired ops (reservation st) then stop ec st else st))) \<and>
   trace (stop ec st) = trace st @ [Stop ec] \<and> halted (stop ec st)"
proof (intro conjI impI)
  assume "stopped_with ops ec st"
  then show "handle_event ops ec st =
      emit Unsubscribe
        (emit Reservation_stop (st\<lparr>reservation := reservation_stop ops (reservation st)\<rparr>)
           \<lparr>chain := unsubscribe ops (chain st)\<rparr>)"
    and "trace (handle_event ops ec st) = trace st @ [Reservation_stop, Unsubscribe]"
    and "halted (handle_event ops ec st) = halted st"
    by (simp_all add: handle_event_def emit_def)
next
  assume "\<not> stopped_with ops ec st" and "ec = channel_timeout \<and> \<not> expired ops (reservation st)"
  then show "handle_event ops ec st = st" by (simp add: handle_event_def)
next
  assume "\<not> stopped_with ops ec st" and "ec \<noteq> success \<and> ec \<noteq> channel_timeout"
  then show "handle_event ops ec st = stop ec st" by (simp add: handle_event_def)
next
  assume "\<not> stopped_with ops ec st" and "ec = success \<or> ec = channel_timeout"
  then show "handle_event ops ec st = (if expired ops (reservation st) then stop ec st else st)"
    by (auto simp: handle_event_def)
next
  show "trace (stop ec st) = trace st @ [Stop ec]" by (rule trace_stop)
  show "halted (stop ec st)" by (rule halted_stop)
qed

text \<open>
  Instances for C7: a timeout on a fresh reservation, the error code 5, a timeout on an
  expired reservation, and the code \<^verbatim>\<open>service_stopped\<close>, for which \<^verbatim>\<open>stopped(ec)\<close> holds.
\<close>

theorem handle_event_timeout_witness:
  "\<not> stopped_with fixture_ops channel_timeout fixture_protocol \<and>
   \<not> expired fixture_ops (reservation fixture_protocol) \<and>
   handle_event fixture_ops channel_timeout fixture_protocol = fixture_protocol \<and>
   \<not> stopped_with fixture_ops (other_error 5) fixture_protocol \<and>
   handle_event fixture_ops (other_error 5) fixture_protocol =
     stop (other_error 5) fixture_protocol \<and>
   trace (handle_event fixture_ops (other_error 5) fixture_protocol) = [Stop (other_error 5)] \<and>
   expired fixture_ops
     (reservation (fixture_protocol\<lparr>reservation := (reservation fixture_protocol)\<lparr>overdue := True\<rparr>\<rparr>)) \<and>
   handle_event fixture_ops channel_timeout
       (fixture_protocol\<lparr>reservation := (reservation fixture_protocol)\<lparr>overdue := True\<rparr>\<rparr>) =
     stop channel_timeout
       (fixture_protocol\<lparr>reservation := (reservation fixture_protocol)\<lparr>overdue := True\<rparr>\<rparr>) \<and>
   stopped_with fixture_ops service_stopped fixture_protocol \<and>
   trace (handle_event fixture_ops service_stopped fixture_protocol) =
     [Reservation_stop, Unsubscribe] \<and>
   halted (handle_event fixture_ops service_stopped fixture_protocol) = False"
proof -
  let ?late = "fixture_protocol\<lparr>reservation := (reservation fixture_protocol)\<lparr>overdue := True\<rparr>\<rparr>"
  have run: "\<not> stopped_with fixture_ops channel_timeout fixture_protocol"
    "\<not> stopped_with fixture_ops (other_error 5) fixture_protocol"
    "\<not> stopped_with fixture_ops channel_timeout ?late"
    and over: "stopped_with fixture_ops service_stopped fixture_protocol"
    by (simp_all add: stopped_with_def fixture_ops_def fixture_protocol_def)
  have fresh: "\<not> expired fixture_ops (reservation fixture_protocol)"
    and late: "expired fixture_ops (reservation ?late)"
    by (simp_all add: fixture_ops_def fixture_protocol_def)
  have start: "trace fixture_protocol = []" "halted fixture_protocol = False"
    by (simp_all add: fixture_protocol_def)
  from handle_event_timeout [of fixture_ops channel_timeout fixture_protocol] run(1) fresh
  have a: "handle_event fixture_ops channel_timeout fixture_protocol = fixture_protocol"
    by blast
  from handle_event_timeout [of fixture_ops "other_error 5" fixture_protocol] run(2)
  have b: "handle_event fixture_ops (other_error 5) fixture_protocol =
      stop (other_error 5) fixture_protocol"
    and c: "trace (stop (other_error 5) fixture_protocol) =
      trace fixture_protocol @ [Stop (other_error 5)]"
    by simp_all
  from c have c': "trace (handle_event fixture_ops (other_error 5) fixture_protocol) =
      [Stop (other_error 5)]"
    unfolding b by (simp add: start)
  from handle_event_timeout [of fixture_ops channel_timeout ?late] run(3) late
  have d: "handle_event fixture_ops channel_timeout ?late = stop channel_timeout ?late"
    by simp
  from handle_event_timeout [of fixture_ops service_stopped fixture_protocol] over
  have "trace (handle_event fixture_ops service_stopped fixture_protocol) =
      trace fixture_protocol @ [Reservation_stop, Unsubscribe]"
    and "halted (handle_event fixture_ops service_stopped fixture_protocol) =
      halted fixture_protocol"
    by blast+
  then have e: "trace (handle_event fixture_ops service_stopped fixture_protocol) =
      [Reservation_stop, Unsubscribe]"
    and f: "halted (handle_event fixture_ops service_stopped fixture_protocol) = False"
    by (simp_all add: start)
  from run(1,2) fresh a b c' late d over e f show ?thesis by blast
qed

text \<open>
  Where C7 fails as stated: the channel is running and the timer event carries
  \<^verbatim>\<open>service_stopped\<close> or \<^verbatim>\<open>channel_stopped\<close>, error codes other than
  \<^verbatim>\<open>channel_timeout\<close>, yet the channel is not stopped with the code: the reservation is
  stopped and the chain unsubscribed, and no stop is issued.
\<close>

theorem handle_event_stop_code_counterexample:
  "halted fixture_protocol = False \<and>
   service_stopped \<noteq> success \<and> service_stopped \<noteq> channel_timeout \<and>
   trace (handle_event fixture_ops service_stopped fixture_protocol) =
     [Reservation_stop, Unsubscribe] \<and>
   halted (handle_event fixture_ops service_stopped fixture_protocol) = False \<and>
   handle_event fixture_ops service_stopped fixture_protocol \<noteq>
     stop service_stopped fixture_protocol \<and>
   channel_stopped \<noteq> success \<and> channel_stopped \<noteq> channel_timeout \<and>
   trace (handle_event fixture_ops channel_stopped fixture_protocol) =
     [Reservation_stop, Unsubscribe] \<and>
   halted (handle_event fixture_ops channel_stopped fixture_protocol) = False \<and>
   handle_event fixture_ops channel_stopped fixture_protocol \<noteq>
     stop channel_stopped fixture_protocol"
proof -
  have a: "trace (handle_event fixture_ops service_stopped fixture_protocol) =
      [Reservation_stop, Unsubscribe]"
    "halted (handle_event fixture_ops service_stopped fixture_protocol) = False"
    "trace (handle_event fixture_ops channel_stopped fixture_protocol) =
      [Reservation_stop, Unsubscribe]"
    "halted (handle_event fixture_ops channel_stopped fixture_protocol) = False"
    by (simp_all add: handle_event_def stopped_with_def emit_def fixture_ops_def
        fixture_protocol_def)
  have b: "halted (stop service_stopped fixture_protocol)"
    "halted (stop channel_stopped fixture_protocol)"
    by (rule halted_stop)+
  from a(2) b(1) have "handle_event fixture_ops service_stopped fixture_protocol \<noteq>
      stop service_stopped fixture_protocol" by metis
  moreover from a(4) b(2) have "handle_event fixture_ops channel_stopped fixture_protocol \<noteq>
      stop channel_stopped fixture_protocol" by metis
  moreover have "halted fixture_protocol = False" by (simp add: fixture_protocol_def)
  ultimately show ?thesis using a by simp
qed

text \<open>
  Claim C9. When a received block has been organized with success, at \<open>height\<close>, the
  progress line of that block is logged exactly when \<open>height\<close> is a multiple of the
  period, which is 100 when the chain says, after organizing, that its blocks are stale,
  and 1 when it does not.
\<close>

theorem receive_block_report_period:
  assumes "\<not> stopped_with ops ec st" and "ec = success"
    and "\<not> (require_witness st \<and> \<not> peer_witness st)"
    and "\<not> reservation_stopped ops (reservation st)"
    and "find_height_and_erase ops (block_hash ops b) (reservation st) = (Some height, r)"
    and "organize ops b height (chain st) = (success, c)"
    and "period = (if is_blocks_stale ops c then 100 else 1)"
  shows "Report b height \<in>
       set (drop (length (trace st)) (trace (snd (handle_receive_block ops ec b st)))) \<longleftrightarrow>
     height mod period = 0"
proof -
  from assms(3) have w: "(require_witness st \<and> \<not> peer_witness st) = False" by simp
  show ?thesis
    using assms(1,2,4-6) unfolding assms(7)
    by (simp add: handle_receive_block_def Let_def w send_get_blocks_trace trace_emit
        report_def emit_def)
qed

text \<open>
  Instances for C9 on a stale chain: the block of height 200 is reported, the block of
  height 201 is not.
\<close>

theorem receive_block_report_period_witness:
  "\<not> stopped_with fixture_ops success fixture_protocol \<and>
   organize fixture_ops 7 200 (chain fixture_protocol) = (success, chain fixture_protocol) \<and>
   is_blocks_stale fixture_ops (chain fixture_protocol) \<and>
   (200 :: nat) mod 100 = 0 \<and>
   Report 7 200 \<in> set (drop (length (trace fixture_protocol))
     (trace (snd (handle_receive_block fixture_ops success 7 fixture_protocol)))) \<and>
   (201 :: nat) mod 100 \<noteq> 0 \<and>
   Report 8 201 \<notin> set (drop (length (trace fixture_protocol))
     (trace (snd (handle_receive_block fixture_ops success 8 fixture_protocol))))"
proof -
  have run: "\<not> stopped_with fixture_ops success fixture_protocol"
    by (simp add: stopped_with_def fixture_ops_def fixture_protocol_def)
  have wit: "\<not> (require_witness fixture_protocol \<and> \<not> peer_witness fixture_protocol)"
    by (simp add: fixture_protocol_def)
  have live: "\<not> reservation_stopped fixture_ops (reservation fixture_protocol)"
    by (simp add: fixture_protocol_def fixture_ops_def)
  have found: "find_height_and_erase fixture_ops (block_hash fixture_ops 7)
      (reservation fixture_protocol) =
        (Some 200, \<lparr>pending = [(8, 201)], partitioned = False, overdue = False\<rparr>)"
    "find_height_and_erase fixture_ops (block_hash fixture_ops 8)
      (reservation fixture_protocol) =
        (Some 201, \<lparr>pending = [(7, 200)], partitioned = False, overdue = False\<rparr>)"
    by (simp_all add: fixture_protocol_def fixture_ops_def)
  have good: "organize fixture_ops b h (chain fixture_protocol) =
      (success, chain fixture_protocol)" for b h
    by (simp add: fixture_protocol_def fixture_ops_def)
  have stale: "is_blocks_stale fixture_ops (chain fixture_protocol)"
    by (simp add: fixture_protocol_def fixture_ops_def)
  then have period: "100 = (if is_blocks_stale fixture_ops (chain fixture_protocol)
      then 100 else (1 :: nat))" by simp
  from receive_block_report_period [OF run refl wit live found(1) good period]
  have a: "Report 7 200 \<in> set (drop (length (trace fixture_protocol))
     (trace (snd (handle_receive_block fixture_ops success 7 fixture_protocol))))" by simp
  from receive_block_report_period [OF run refl wit live found(2) good period]
  have b: "Report 8 201 \<notin> set (drop (length (trace fixture_protocol))
     (trace (snd (handle_receive_block fixture_ops success 8 fixture_protocol))))" by simp
  from run good [of 7 200] stale a b show ?thesis by simp
qed

end
